theory Spec2Isabelle
  imports Complex_Main "HOL-Library.AList" "HOL-Library.Word"
begin

section \<open>The interactive language-table session of \<^verbatim>\<open>application/languagetable.py\<close>\<close>

text \<open>
  The script restores a checkpoint into a video model and then repeats rounds: read a
  line of action symbols, encode them, generate a segment from the current latent, keep
  its last latent as the next seed, stitch the segment onto the video so far and write
  the whole video to a file numbered by the round. Two helpers draw a direction arrow
  on the frames of a video. Every function below is translated from the Python source:
  a \<^verbatim>\<open>raise\<close> and every exception of an indexing or a division is a value
  \<open>Inl e\<close> of the result, a loop is a recursive function, and what the script takes
  from outside (the keyboard line, the generator, the files it reads) is an argument.
\<close>

subsection \<open>Exceptions\<close>

text \<open>
  \<open>ValueError\<close> carries its message, since the script raises it with one text of its
  own and NumPy raises it with others.
\<close>

datatype error =
    ValueError string
  | IndexError
  | ZeroDivisionError
  | AttributeError
  | RuntimeError
  | OverflowError

subsection \<open>Action encoding (\<^verbatim>\<open>main\<close>, lines 147 to 158)\<close>

text \<open>
  A symbol is what iterating \<^verbatim>\<open>env_actions\<close> yields, a Python \<^verbatim>\<open>str\<close>; the
  comparisons are string equalities, in the order of the source's \<^verbatim>\<open>if\<close> chain. The
  control vector is a pair; \<open>0.5\<close> and \<open>-0.5\<close> are the rationals one half and minus one
  half (both are exact binary floating point numbers, and no arithmetic is done on them).
\<close>

type_synonym control = "rat \<times> rat"

definition encode_action :: "string \<Rightarrow> control" where
  "encode_action action =
     (if action = ''d'' then (0, 1 / 2)
      else if action = ''a'' then (0, - (1 / 2))
      else if action = ''s'' then (- (1 / 2), 0)
      else if action = ''w'' then (1 / 2, 0)
      else (0, 0))"

text \<open>
  The loop \<^verbatim>\<open>for action in env_actions: actions.append(...)\<close>, with the list
  \<^verbatim>\<open>actions\<close> built so far as accumulator.
\<close>

fun encode_loop :: "string list \<Rightarrow> control list \<Rightarrow> control list" where
  "encode_loop [] actions = actions"
| "encode_loop (action # rest) actions = encode_loop rest (actions @ [encode_action action])"

definition encode_actions :: "string list \<Rightarrow> control list" where
  "encode_actions env_actions = encode_loop env_actions []"

subsection \<open>Checkpoint loading (\<^verbatim>\<open>main\<close>, lines 81 to 98)\<close>

text \<open>
  What \<^verbatim>\<open>torch.load\<close> returns is a dictionary whose values are tensors or
  dictionaries again (a checkpoint file holds the raw weights, an \<^verbatim>\<open>"ema"\<close> copy of
  them, or both). A Python dictionary keeps its keys in insertion order and has every key
  once: it is an association list, and \<open>AList.update\<close> is the assignment
  \<^verbatim>\<open>d[k] = v\<close> (the value is replaced in place when the key is there, the pair is
  appended otherwise). The tensors themselves are not looked at: their type is a
  parameter.
\<close>

datatype 'a pyval = Tensor 'a | Dict "(string \<times> 'a pyval) list"

type_synonym 'a pydict = "(string \<times> 'a pyval) list"

text \<open>The names of a dictionary, \<^verbatim>\<open>d.keys()\<close>.\<close>

definition keys :: "'a pydict \<Rightarrow> string set" where
  "keys d = set (map fst d)"

text \<open>
  \<^verbatim>\<open>checkpoint.items()\<close>: a tensor has no such method, so the call raises
  \<^verbatim>\<open>AttributeError\<close> on one.
\<close>

definition items :: "'a pyval \<Rightarrow> error + 'a pydict" where
  "items v = (case v of Dict d \<Rightarrow> Inr d | Tensor t \<Rightarrow> Inl AttributeError)"

text \<open>
  Lines 84 to 86: \<^verbatim>\<open>if "ema" in checkpoint: checkpoint = checkpoint["ema"]\<close>. The
  test is made once, on the loaded dictionary.
\<close>

definition select_ema :: "'a pydict \<Rightarrow> 'a pyval" where
  "select_ema checkpoint =
     (case map_of checkpoint ''ema'' of Some e \<Rightarrow> e | None \<Rightarrow> Dict checkpoint)"

text \<open>
  Lines 89 to 94, the loop over \<^verbatim>\<open>checkpoint.items()\<close>. Its state is
  \<^verbatim>\<open>pretrained_dict\<close> and the names printed by \<^verbatim>\<open>print(f'Ignoring: {k}')\<close>, in
  the order printed.
\<close>

fun filter_loop :: "'a pydict \<Rightarrow> 'a pydict \<Rightarrow> 'a pydict \<times> string list \<Rightarrow> 'a pydict \<times> string list" where
  "filter_loop [] model_dict st = st"
| "filter_loop ((k, v) # rest) model_dict (pretrained, skipped) =
     (if k \<in> keys model_dict
      then filter_loop rest model_dict (AList.update k v pretrained, skipped)
      else filter_loop rest model_dict (pretrained, skipped @ [k]))"

definition filter_checkpoint :: "'a pydict \<Rightarrow> 'a pydict \<Rightarrow> 'a pydict \<times> string list" where
  "filter_checkpoint its model_dict = filter_loop its model_dict ([], [])"

text \<open>Line 96, \<^verbatim>\<open>model_dict.update(pretrained_dict)\<close>.\<close>

definition dict_update :: "'a pydict \<Rightarrow> 'a pydict \<Rightarrow> 'a pydict" where
  "dict_update d other = fold (\<lambda>(k, v). AList.update k v) other d"

subsection \<open>The arithmetic of line 95\<close>

text \<open>
  \<^verbatim>\<open>len(pretrained_dict) / len(checkpoint.items()) * 100\<close> divides two integers and
  multiplies the quotient by an integer. Python's true division of integers raises
  \<^verbatim>\<open>ZeroDivisionError\<close> on a zero divisor and otherwise gives the double nearest to
  the exact quotient (\<^verbatim>\<open>OverflowError\<close> when that is too large for a double); the
  product of a double and \<open>100\<close> is the double nearest to the exact product. A finite
  double that is not negative is \<open>Dbl m e\<close>, the number \<open>m * 2 ^ e\<close>; \<open>Inf\<close> is
  infinity.

  Rounding follows IEEE 754 binary64, to nearest with ties to even: a number with binary
  exponent \<open>E\<close> is rounded to a multiple of \<open>2 ^ (E - 52)\<close>, and of \<open>2 ^ (- 1074)\<close> below
  the normal range; a rounded result of \<open>2 ^ 1024\<close> or more overflows.
  \<open>bit_length\<close> is Python's \<^verbatim>\<open>int.bit_length\<close>, and \<open>round_double n d\<close> rounds
  the fraction \<open>n / d\<close>.
\<close>

datatype double = Dbl nat int | Inf

definition dval :: "nat \<Rightarrow> int \<Rightarrow> rat" where
  "dval m e = (if 0 \<le> e then of_nat m * 2 ^ nat e else of_nat m / 2 ^ nat (- e))"

function bit_length :: "nat \<Rightarrow> nat" where
  "bit_length n = (if n = 0 then 0 else Suc (bit_length (n div 2)))"
  by pat_completeness auto
termination
  by (relation "measure id") auto

declare bit_length.simps [simp del]

text \<open>The integer nearest to \<open>n / d\<close>, the even one of two that are equally near.\<close>

definition rne_div :: "nat \<Rightarrow> nat \<Rightarrow> nat" where
  "rne_div n d =
     (let q = n div d; r = n mod d
      in if 2 * r < d then q
         else if d < 2 * r then Suc q
         else if even q then q else Suc q)"

text \<open>
  The binary exponent of \<open>n / d\<close>, for positive \<open>n\<close> and \<open>d\<close>: the difference of the
  bit lengths, or one less.
\<close>

definition floor_log2 :: "nat \<Rightarrow> nat \<Rightarrow> int" where
  "floor_log2 n d =
     (let k = int (bit_length n) - int (bit_length d)
      in if (if 0 \<le> k then d * 2 ^ nat k \<le> n else d \<le> n * 2 ^ nat (- k)) then k else k - 1)"

definition round_double :: "nat \<Rightarrow> nat \<Rightarrow> double" where
  "round_double n d =
     (if n = 0 then Dbl 0 0
      else
        (let e = max (floor_log2 n d - 52) (- 1074);
             m = (if 0 \<le> e then rne_div n (d * 2 ^ nat e) else rne_div (n * 2 ^ nat (- e)) d)
         in if dval m e < 2 ^ 1024 then Dbl m e else Inf))"

definition int_truediv :: "nat \<Rightarrow> nat \<Rightarrow> error + double" where
  "int_truediv a b =
     (if b = 0 then Inl ZeroDivisionError
      else (case round_double a b of
              Inf \<Rightarrow> Inl OverflowError
            | Dbl m e \<Rightarrow> Inr (Dbl m e)))"

definition float_times_100 :: "double \<Rightarrow> double" where
  "float_times_100 x =
     (case x of
        Inf \<Rightarrow> Inf
      | Dbl m e \<Rightarrow>
          (if 0 \<le> e then round_double (m * 100 * 2 ^ nat e) 1
           else round_double (m * 100) (2 ^ nat (- e))))"

definition percent_expr :: "nat \<Rightarrow> nat \<Rightarrow> error + double" where
  "percent_expr a b =
     (case int_truediv a b of
        Inl e \<Rightarrow> Inl e
      | Inr q \<Rightarrow> Inr (float_times_100 q))"

text \<open>
  What loading leaves behind: the dictionary \<^verbatim>\<open>pretrained_dict\<close>, the names
  printed as ignored, the number printed on line 95 and the dictionary handed to
  \<^verbatim>\<open>model.load_state_dict\<close> on line 97. The progress lines (the path,
  \<^verbatim>\<open>Using ema ckpt!\<close>) are not part of the result, and
  \<^verbatim>\<open>load_state_dict\<close> itself, which compares tensor shapes, is outside the script.
\<close>

record 'a load_report =
  pretrained_dict :: "'a pydict"
  ignored :: "string list"
  percent_loaded :: double
  loaded_state_dict :: "'a pydict"

text \<open>Lines 88 to 97, on the checkpoint chosen by lines 84 to 86.\<close>

definition load_params :: "'a pyval \<Rightarrow> 'a pydict \<Rightarrow> error + 'a load_report" where
  "load_params checkpoint model_dict =
     (case items checkpoint of
        Inl e \<Rightarrow> Inl e
      | Inr its \<Rightarrow>
          (case filter_checkpoint its model_dict of
             (pretrained, skipped) \<Rightarrow>
               (case percent_expr (length pretrained) (length its) of
                  Inl e \<Rightarrow> Inl e
                | Inr percent \<Rightarrow>
                    Inr \<lparr>pretrained_dict = pretrained,
                         ignored = skipped,
                         percent_loaded = percent,
                         loaded_state_dict = dict_update model_dict pretrained\<rparr>)))"

definition load_checkpoint :: "'a pydict \<Rightarrow> 'a pydict \<Rightarrow> error + 'a load_report" where
  "load_checkpoint checkpoint model_dict = load_params (select_ema checkpoint) model_dict"

subsection \<open>Tensors and the storage they share\<close>

text \<open>
  A tensor value is a scalar or an array of tensors along its first axis. \<^verbatim>\<open>t[i]\<close>
  is Python's indexing (a negative index counts from the end; a scalar and an index out of
  range raise \<^verbatim>\<open>IndexError\<close>), \<^verbatim>\<open>unsqueeze(0)\<close> adds a first axis of size one
  and \<^verbatim>\<open>squeeze()\<close> removes every axis of size one.
\<close>

datatype 'a tensor = Scalar 'a | Arr "'a tensor list"

definition unsqueeze0 :: "'a tensor \<Rightarrow> 'a tensor" where
  "unsqueeze0 t = Arr [t]"

fun squeeze :: "'a tensor \<Rightarrow> 'a tensor" where
  "squeeze (Scalar a) = Scalar a"
| "squeeze (Arr [t]) = squeeze t"
| "squeeze (Arr ts) = Arr (map squeeze ts)"

definition index_t :: "'a tensor \<Rightarrow> int \<Rightarrow> error + 'a tensor" where
  "index_t t i =
     (case t of
        Scalar a \<Rightarrow> Inl IndexError
      | Arr ts \<Rightarrow>
          (let n = int (length ts); j = (if i < 0 then n + i else i)
           in if 0 \<le> j \<and> j < n then Inr (ts ! nat j) else Inl IndexError))"

text \<open>
  A tensor object is a view of a storage: \<open>storage\<close> names the memory it reads, \<open>val\<close>
  is what it shows of it. Indexing, \<^verbatim>\<open>unsqueeze\<close> and \<^verbatim>\<open>squeeze\<close> return views of
  the same storage; \<^verbatim>\<open>clone()\<close> copies the value into a storage of its own, the
  next one the allocator gives out. The script never writes into a tensor it holds, so the
  contents of a storage need no model beyond the values of its views.
\<close>

record 'a tref =
  storage :: nat
  val :: "'a tensor"

definition unsqueeze_ref :: "'a tref \<Rightarrow> 'a tref" where
  "unsqueeze_ref r = r\<lparr>val := unsqueeze0 (val r)\<rparr>"

definition squeeze_ref :: "'a tref \<Rightarrow> 'a tref" where
  "squeeze_ref r = r\<lparr>val := squeeze (val r)\<rparr>"

definition index_ref :: "'a tref \<Rightarrow> int \<Rightarrow> error + 'a tref" where
  "index_ref r i = (case index_t (val r) i of Inl e \<Rightarrow> Inl e | Inr v \<Rightarrow> Inr (r\<lparr>val := v\<rparr>))"

definition clone :: "'a tref \<Rightarrow> nat \<Rightarrow> 'a tref" where
  "clone r fresh = \<lparr>storage = fresh, val = val r\<rparr>"

subsection \<open>Output paths (\<^verbatim>\<open>main\<close>, lines 126, 138 and 175)\<close>

text \<open>
  \<^verbatim>\<open>str\<close> of a non-negative integer is its decimal numeral, and
  \<^verbatim>\<open>os.path.join\<close> of two parts is the POSIX one: the second part alone when it
  starts with a slash, the concatenation when the first part is empty or ends with a
  slash, the two parts with a slash between them otherwise.
\<close>

definition digit_char :: "nat \<Rightarrow> char" where
  "digit_char d = ''0123456789'' ! d"

function str_nat :: "nat \<Rightarrow> string" where
  "str_nat n = (if n < 10 then [digit_char n] else str_nat (n div 10) @ [digit_char (n mod 10)])"
  by pat_completeness auto
termination
  by (relation "measure id") auto

declare str_nat.simps [simp del]

definition path_join :: "string \<Rightarrow> string \<Rightarrow> string" where
  "path_join a b =
     (if b \<noteq> [] \<and> hd b = CHR ''/'' then b
      else if a = [] \<or> last a = CHR ''/'' then a @ b
      else a @ ''/'' @ b)"

definition game_dir :: string where
  "game_dir = ''application/languagetable_game''"

definition first_image_path :: string where
  "first_image_path = path_join game_dir ''first_image.png''"

definition output_video_path :: "nat \<Rightarrow> string" where
  "output_video_path idx = path_join game_dir (''all_'' @ str_nat idx @ ''-th.mp4'')"

subsection \<open>The session (\<^verbatim>\<open>main\<close>, lines 113 to 183)\<close>

text \<open>
  A file of the output directory is a still image or a video, the frames in order with
  the frame rate the writer was opened with. The state of the session is what the loop
  carries from one round to the next: \<^verbatim>\<open>start_image\<close>, \<^verbatim>\<open>seg_video_list\<close>,
  \<^verbatim>\<open>seg_idx\<close>, the files written so far, and the next storage the allocator gives out.
\<close>

datatype 'f outfile = Video nat "'f list" | Still 'f

record ('a, 'f) session =
  start_image :: "'a tref"
  seg_video_list :: "'f list list"
  seg_idx :: nat
  written :: "string \<Rightarrow> 'f outfile option"
  next_storage :: nat

text \<open>\<^verbatim>\<open>np.concatenate(seg_video_list, axis=0)\<close>, the video so far.\<close>

definition all_video :: "('a, 'f) session \<Rightarrow> 'f list" where
  "all_video s = concat (seg_video_list s)"

text \<open>
  Lines 113 to 143. The latent video and the frames read from the reference video come
  from files; \<^verbatim>\<open>resize_preprocess\<close> belongs to the dataset and is an argument, as is
  the output directory as found. \<^verbatim>\<open>torch.stack\<close> raises \<^verbatim>\<open>RuntimeError\<close> on
  an empty list of frames, \<^verbatim>\<open>latent_video[start_idx]\<close> and
  \<^verbatim>\<open>video_tensor[0]\<close> raise \<^verbatim>\<open>IndexError\<close> when there is no first element. The
  latent video is the one tensor allocated so far, in storage 0, and
  \<^verbatim>\<open>start_image\<close> is a view of it.
\<close>

definition init_session ::
  "('v list \<Rightarrow> 'f list) \<Rightarrow> (string \<Rightarrow> 'f outfile option) \<Rightarrow> 'a tensor \<Rightarrow> 'v list
     \<Rightarrow> error + ('a, 'f) session" where
  "init_session resize_preprocess files latent_video video_reader =
     (if video_reader = [] then Inl RuntimeError
      else
        (case index_ref \<lparr>storage = 0, val = latent_video\<rparr> 0 of
           Inl e \<Rightarrow> Inl e
         | Inr start \<Rightarrow>
             (let video_tensor = resize_preprocess (drop 0 video_reader)
              in if video_tensor = [] then Inl IndexError
                 else Inr \<lparr>start_image = start,
                           seg_video_list = [take 1 video_tensor],
                           seg_idx = 0,
                           written = files(first_image_path \<mapsto> Still (hd video_tensor)),
                           next_storage = 1\<rparr>)))"

text \<open>
  One round, lines 146 to 183. The line typed at the keyboard and the generator are
  outside the script: a round's input is the list of symbols read and the generator's
  hidden randomness \<open>noise\<close>, and \<open>gen\<close> maps the randomness, the seed (the current
  latent under two new axes) and the batch of one action sequence to the decoded segment
  and the latent trajectory. \<open>post\<close> is the conversion of one decoded frame to 8-bit
  pixels of lines 169 and 170. The trajectory is a tensor the generator allocates. The
  frames of the reference video and the decoded frames have one shape, the video size of
  the configuration, so \<^verbatim>\<open>np.concatenate\<close> joins them; an exception inside the
  generator or the video writer is not modelled.
\<close>

definition seed_of :: "('a, 'f) session \<Rightarrow> 'a tref" where
  "seed_of s = unsqueeze_ref (unsqueeze_ref (start_image s))"

definition seg_latents_of ::
  "('w \<Rightarrow> 'a tensor \<Rightarrow> control list list \<Rightarrow> 'g list \<times> 'a tensor)
     \<Rightarrow> string list \<times> 'w \<Rightarrow> ('a, 'f) session \<Rightarrow> 'a tref" where
  "seg_latents_of gen inp s =
     \<lparr>storage = next_storage s,
      val = snd (gen (snd inp) (val (seed_of s)) [encode_actions (fst inp)])\<rparr>"

definition t_videos_of ::
  "('w \<Rightarrow> 'a tensor \<Rightarrow> control list list \<Rightarrow> 'g list \<times> 'a tensor) \<Rightarrow> ('g \<Rightarrow> 'f)
     \<Rightarrow> string list \<times> 'w \<Rightarrow> ('a, 'f) session \<Rightarrow> 'f list" where
  "t_videos_of gen post inp s =
     map post (fst (gen (snd inp) (val (seed_of s)) [encode_actions (fst inp)]))"

definition session_round ::
  "('w \<Rightarrow> 'a tensor \<Rightarrow> control list list \<Rightarrow> 'g list \<times> 'a tensor) \<Rightarrow> ('g \<Rightarrow> 'f)
     \<Rightarrow> string list \<times> 'w \<Rightarrow> ('a, 'f) session \<Rightarrow> error + ('a, 'f) session" where
  "session_round gen post inp s =
     (let seg_latents = seg_latents_of gen inp s;
          fresh = Suc (next_storage s)
      in case index_ref (squeeze_ref seg_latents) (- 1) of
           Inl e \<Rightarrow> Inl e
         | Inr last_latent \<Rightarrow>
             (let t_videos = t_videos_of gen post inp s;
                  segs = seg_video_list s @ [drop 1 t_videos]
              in Inr (s\<lparr>start_image := clone last_latent fresh,
                        seg_video_list := segs,
                        written := (written s)(output_video_path (seg_idx s) \<mapsto> Video 4 (concat segs)),
                        seg_idx := seg_idx s + 1,
                        next_storage := Suc fresh\<rparr>)))"

text \<open>
  The first rounds of the loop \<^verbatim>\<open>while True\<close>, one per input; an exception ends the
  session. \<open>round_segments\<close> lists the segments \<^verbatim>\<open>t_videos\<close> of those rounds.
\<close>

fun run_rounds ::
  "('w \<Rightarrow> 'a tensor \<Rightarrow> control list list \<Rightarrow> 'g list \<times> 'a tensor) \<Rightarrow> ('g \<Rightarrow> 'f)
     \<Rightarrow> ('a, 'f) session \<Rightarrow> (string list \<times> 'w) list \<Rightarrow> error + ('a, 'f) session" where
  "run_rounds gen post s [] = Inr s"
| "run_rounds gen post s (inp # rest) =
     (case session_round gen post inp s of
        Inl e \<Rightarrow> Inl e
      | Inr s' \<Rightarrow> run_rounds gen post s' rest)"

fun round_segments ::
  "('w \<Rightarrow> 'a tensor \<Rightarrow> control list list \<Rightarrow> 'g list \<times> 'a tensor) \<Rightarrow> ('g \<Rightarrow> 'f)
     \<Rightarrow> ('a, 'f) session \<Rightarrow> (string list \<times> 'w) list \<Rightarrow> 'f list list" where
  "round_segments gen post s [] = []"
| "round_segments gen post s (inp # rest) =
     (case session_round gen post inp s of
        Inl e \<Rightarrow> []
      | Inr s' \<Rightarrow> t_videos_of gen post inp s # round_segments gen post s' rest)"

subsection \<open>The arrow image (\<^verbatim>\<open>create_arrow_image\<close>, lines 33 to 49)\<close>

text \<open>
  An image is a NumPy array of shape \<open>(rows, columns, 3)\<close> of 8-bit values: a list of
  rows, each a list of pixels, all rows of one length. \<^verbatim>\<open>np.flipud\<close> reverses the
  first axis. \<^verbatim>\<open>np.rot90(m, k)\<close> is NumPy's: with \<open>k mod 4 = 1\<close> the transpose of
  the array flipped along its second axis, with \<open>k mod 4 = 3\<close> the transpose flipped
  along its second axis, with \<open>k mod 4 = 2\<close> both flips, and the array itself otherwise.
\<close>

type_synonym pixel = "8 word \<times> 8 word \<times> 8 word"

type_synonym image = "pixel list list"

definition shape1 :: "image \<Rightarrow> nat" where
  "shape1 m = (case m of [] \<Rightarrow> 0 | r # rs \<Rightarrow> length r)"

definition rectangular :: "image \<Rightarrow> bool" where
  "rectangular m = (\<forall>r \<in> set m. length r = shape1 m)"

definition flipud :: "image \<Rightarrow> image" where
  "flipud m = rev m"

definition flip1 :: "image \<Rightarrow> image" where
  "flip1 m = map rev m"

definition np_transpose :: "image \<Rightarrow> image" where
  "np_transpose m = map (\<lambda>j. map (\<lambda>r. r ! j) m) [0..<shape1 m]"

definition rot90 :: "image \<Rightarrow> int \<Rightarrow> image" where
  "rot90 m k =
     (if k mod 4 = 0 then m
      else if k mod 4 = 2 then flip1 (flipud m)
      else if k mod 4 = 1 then np_transpose (flip1 m)
      else flip1 (np_transpose m))"

text \<open>
  \<^verbatim>\<open>np.zeros((size, size, 3), dtype=np.uint8)\<close> raises \<^verbatim>\<open>ValueError\<close> on a
  negative size. Memory is not bounded here: a size too large to allocate is not
  modelled.
\<close>

definition np_zeros :: "int \<Rightarrow> error + image" where
  "np_zeros sz =
     (if sz < 0 then Inl (ValueError ''negative dimensions are not allowed'')
      else Inr (replicate (nat sz) (replicate (nat sz) (0, 0, 0))))"

text \<open>
  The function first builds a black square of the given size and then replaces it by the
  image read from \<^verbatim>\<open>./sample/arrow.jpg\<close>; that file's content is the argument
  \<open>arrow_jpg\<close>. The defaults of the Python parameters are \<^verbatim>\<open>direction='w'\<close>,
  \<^verbatim>\<open>size=50\<close> and \<^verbatim>\<open>color=(255, 0, 0)\<close>.
\<close>

definition create_arrow_image :: "image \<Rightarrow> string \<Rightarrow> int \<Rightarrow> int \<times> int \<times> int \<Rightarrow> error + image" where
  "create_arrow_image arrow_jpg direction sz color =
     (case np_zeros sz of
        Inl e \<Rightarrow> Inl e
      | Inr black \<Rightarrow>
          (let img = arrow_jpg
           in Inr (if direction = ''s'' then flipud img
                   else if direction = ''a'' then rot90 img 1
                   else if direction = ''d'' then rot90 img (- 1)
                   else img)))"

subsection \<open>The overlay (\<^verbatim>\<open>add_arrows_to_video\<close>, lines 51 to 69)\<close>

text \<open>
  \<^verbatim>\<open>np.any(arrow_img[i, j] != 0)\<close>: some channel of the pixel is not zero.
\<close>

definition nonzero :: "pixel \<Rightarrow> bool" where
  "nonzero p = (case p of (r, g, b) \<Rightarrow> r \<noteq> 0 \<or> g \<noteq> 0 \<or> b \<noteq> 0)"

definition position :: "nat \<times> nat" where
  "position = (200, 240)"

text \<open>
  The two loops of lines 64 to 67 write into the frame in place. \<open>paint_row\<close> is the
  inner loop over the pixels of row \<open>i\<close> of the arrow from column \<open>j\<close> on, and
  \<open>paint_rows\<close> the outer loop from row \<open>i\<close> on (the arrow is rectangular, so the
  columns \<^verbatim>\<open>range(arrow_img.shape[1])\<close> are the pixels of each row). The assignment
  \<^verbatim>\<open>frame[y, x] = v\<close> raises \<^verbatim>\<open>IndexError\<close> outside the frame; both indices
  are at least those of \<open>position\<close>, so none counts from the end.
\<close>

fun paint_row :: "image \<Rightarrow> nat \<Rightarrow> nat \<Rightarrow> pixel list \<Rightarrow> error + image" where
  "paint_row frame i j [] = Inr frame"
| "paint_row frame i j (p # ps) =
     (if nonzero p
      then (let y = fst position + i; x = snd position + j
            in if y < length frame \<and> x < length (frame ! y)
               then paint_row (frame[y := (frame ! y)[x := p]]) i (Suc j) ps
               else Inl IndexError)
      else paint_row frame i (Suc j) ps)"

fun paint_rows :: "image \<Rightarrow> nat \<Rightarrow> image \<Rightarrow> error + image" where
  "paint_rows frame i [] = Inr frame"
| "paint_rows frame i (r # rs) =
     (case paint_row frame i 0 r of
        Inl e \<Rightarrow> Inl e
      | Inr painted \<Rightarrow> paint_rows painted (Suc i) rs)"

text \<open>The body of the loop over the frames, lines 61 to 67, for one frame.\<close>

definition draw_arrow :: "image \<Rightarrow> image \<Rightarrow> string \<Rightarrow> error + image" where
  "draw_arrow arrow_jpg frame action =
     (if action \<noteq> '' ''
      then (case create_arrow_image arrow_jpg action 50 (255, 0, 0) of
              Inl e \<Rightarrow> Inl e
            | Inr arrow_img \<Rightarrow> paint_rows frame 0 arrow_img)
      else Inr frame)"

text \<open>
  The loop over \<^verbatim>\<open>zip(video_np, actions)\<close>; \<open>out\<close> are the frames appended to the
  writer so far.
\<close>

fun arrows_loop :: "image \<Rightarrow> (image \<times> string) list \<Rightarrow> image list \<Rightarrow> error + image list" where
  "arrows_loop arrow_jpg [] out = Inr out"
| "arrows_loop arrow_jpg ((frame, action) # rest) out =
     (case draw_arrow arrow_jpg frame action of
        Inl e \<Rightarrow> Inl e
      | Inr painted \<Rightarrow> arrows_loop arrow_jpg rest (out @ [painted]))"

definition length_message :: string where
  "length_message = ''The length of the actions list must match the number of video frames.''"

text \<open>The result is the file written: its path and the video at 4 frames per second.\<close>

definition add_arrows_to_video ::
  "image \<Rightarrow> image list \<Rightarrow> string \<Rightarrow> string list \<Rightarrow> error + string \<times> image outfile" where
  "add_arrows_to_video arrow_jpg video_np save_path actions =
     (if length actions \<noteq> length video_np then Inl (ValueError length_message)
      else (case arrows_loop arrow_jpg (zip video_np actions) [] of
              Inl e \<Rightarrow> Inl e
            | Inr frames \<Rightarrow> Inr (save_path, Video 4 frames)))"

section \<open>Properties\<close>

subsection \<open>Action encoding\<close>

lemma encode_loop_map: "encode_loop S acc = acc @ map encode_action S"
  by (induction S arbitrary: acc) simp_all

text \<open>
  Claim C1. For every sequence of symbols, the empty one included, the encoding has the
  length of the input and its elements are the lookup of the input's elements, in order:
  \<open>w\<close> gives \<open>(0.5, 0)\<close>, \<open>s\<close> gives \<open>(-0.5, 0)\<close>, \<open>a\<close> gives \<open>(0, -0.5)\<close>, \<open>d\<close> gives
  \<open>(0, 0.5)\<close> and every other symbol gives \<open>(0, 0)\<close>. The encoder has no failing
  branch: it is a total function into control vectors.
\<close>

theorem C1_encode_actions:
  "length (encode_actions S) = length S
   \<and> encode_actions S = map encode_action S
   \<and> encode_actions [] = []
   \<and> encode_action ''w'' = (1 / 2, 0)
   \<and> encode_action ''s'' = (- (1 / 2), 0)
   \<and> encode_action ''a'' = (0, - (1 / 2))
   \<and> encode_action ''d'' = (0, 1 / 2)
   \<and> (\<forall>c. c \<noteq> ''w'' \<and> c \<noteq> ''s'' \<and> c \<noteq> ''a'' \<and> c \<noteq> ''d'' \<longrightarrow> encode_action c = (0, 0))"
  by (simp add: encode_actions_def encode_loop_map encode_action_def)

theorem C1_encode_actions_witness:
  "encode_actions [''w'', ''d'', '' ''] = [(1 / 2, 0), (0, 1 / 2), (0, 0)]
   \<and> length (encode_actions [''w'', ''d'', '' '']) = 3
   \<and> encode_action ''x'' = (0, 0)"
  using C1_encode_actions [of "[''w'', ''d'', '' '']"]
  by (simp add: encode_action_def)

subsection \<open>Checkpoint loading\<close>

lemma keys_Nil: "keys [] = {}"
  by (simp add: keys_def)

lemma keys_Cons: "keys ((k, v) # d) = insert k (keys d)"
  by (simp add: keys_def)

lemma keys_update: "keys (AList.update k v d) = insert k (keys d)"
  unfolding keys_def by (induction d) auto

lemma filter_loop_keys:
  "keys (fst (filter_loop C M st)) = keys (fst st) \<union> (keys C \<inter> keys M)"
proof (induction C M st rule: filter_loop.induct)
  case (1 model_dict st)
  then show ?case by (simp add: keys_Nil)
next
  case (2 k v rest model_dict pretrained skipped)
  then show ?case
    by (cases "k \<in> keys model_dict") (auto simp: keys_update keys_Cons)
qed

lemma filter_loop_ignored:
  "set (snd (filter_loop C M st)) = set (snd st) \<union> (keys C - keys M)"
proof (induction C M st rule: filter_loop.induct)
  case (1 model_dict st)
  then show ?case by (simp add: keys_Nil)
next
  case (2 k v rest model_dict pretrained skipped)
  then show ?case
    by (cases "k \<in> keys model_dict") (auto simp: keys_Cons)
qed

lemma filter_loop_distinct:
  "distinct (map fst (fst st)) \<Longrightarrow> distinct (map fst (fst (filter_loop C M st)))"
proof (induction C M st rule: filter_loop.induct)
  case (1 model_dict st)
  then show ?case by simp
next
  case (2 k v rest model_dict pretrained skipped)
  then show ?case
    by (cases "k \<in> keys model_dict") (auto simp: distinct_update)
qed

lemma keys_dict_update: "keys (dict_update d other) = keys d \<union> keys other"
  unfolding dict_update_def
  by (induction other arbitrary: d) (auto simp: keys_update keys_Cons keys_Nil)

lemma map_of_dict_update:
  "k \<notin> keys other \<Longrightarrow> map_of (dict_update d other) k = map_of d k"
  unfolding dict_update_def
  by (induction other arbitrary: d) (auto simp: keys_Cons update_conv')


text \<open>
  Claim C2. For every checkpoint dictionary \<open>C\<close> and every model dictionary \<open>M\<close>, the
  names kept in \<^verbatim>\<open>pretrained_dict\<close> are the names of \<open>C\<close> that are names of \<open>M\<close>,
  and the names reported as ignored are the names of \<open>C\<close> that are not. What reaches the
  model is \<^verbatim>\<open>model_dict\<close> updated with \<^verbatim>\<open>pretrained_dict\<close>: it has the model's
  own names, and it differs from the model's dictionary at names of the intersection only.
\<close>

theorem C2_filter_names:
  "keys (fst (filter_checkpoint C M)) = keys C \<inter> keys M
   \<and> set (snd (filter_checkpoint C M)) = keys C - keys M
   \<and> keys (dict_update M (fst (filter_checkpoint C M))) = keys M
   \<and> (\<forall>k. map_of (dict_update M (fst (filter_checkpoint C M))) k \<noteq> map_of M k
          \<longrightarrow> k \<in> keys C \<inter> keys M)"
proof -
  have a: "keys (fst (filter_checkpoint C M)) = keys C \<inter> keys M"
    by (simp add: filter_checkpoint_def filter_loop_keys keys_Nil)
  have b: "set (snd (filter_checkpoint C M)) = keys C - keys M"
    by (simp add: filter_checkpoint_def filter_loop_ignored)
  have c: "keys (dict_update M (fst (filter_checkpoint C M))) = keys M"
    using a by (auto simp: keys_dict_update)
  have d: "k \<in> keys C \<inter> keys M"
    if "map_of (dict_update M (fst (filter_checkpoint C M))) k \<noteq> map_of M k" for k
    using that a map_of_dict_update [of k "fst (filter_checkpoint C M)" M] by blast
  from a b c d show ?thesis by blast
qed

theorem C2_filter_names_witness:
  "fst (filter_checkpoint
          [(''a'', Tensor (4::nat)), (''b'', Tensor 2), (''c'', Tensor 3)]
          [(''a'', Tensor 0), (''c'', Tensor 0), (''d'', Tensor 0)])
     = [(''a'', Tensor 4), (''c'', Tensor 3)]
   \<and> snd (filter_checkpoint
          [(''a'', Tensor (4::nat)), (''b'', Tensor 2), (''c'', Tensor 3)]
          [(''a'', Tensor 0), (''c'', Tensor 0), (''d'', Tensor 0)]) = [''b'']
   \<and> map_of (dict_update [(''a'', Tensor 0), (''c'', Tensor 0), (''d'', Tensor 0)]
               [(''a'', Tensor (4::nat)), (''c'', Tensor 3)]) ''a''
       \<noteq> map_of [(''a'', Tensor (0::nat)), (''c'', Tensor 0), (''d'', Tensor 0)] ''a''
   \<and> ''a'' \<in> keys [(''a'', Tensor (4::nat)), (''b'', Tensor 2), (''c'', Tensor 3)]
             \<inter> keys [(''a'', Tensor (0::nat)), (''c'', Tensor 0), (''d'', Tensor 0)]"
  using C2_filter_names [of "[(''a'', Tensor (4::nat)), (''b'', Tensor 2), (''c'', Tensor 3)]"
                            "[(''a'', Tensor 0), (''c'', Tensor 0), (''d'', Tensor 0)]"]
  by (simp add: filter_checkpoint_def keys_def dict_update_def)

subsection \<open>The arithmetic of line 95\<close>

lemma bit_length_upper: "n < 2 ^ bit_length n"
proof (induction n rule: bit_length.induct)
  case (1 n)
  show ?case
  proof (cases "n = 0")
    case True
    then show ?thesis by (simp add: bit_length.simps)
  next
    case False
    from "1.IH" [OF False] have "n div 2 < 2 ^ bit_length (n div 2)" .
    then have "n < 2 * 2 ^ bit_length (n div 2)" by linarith
    with False show ?thesis by (simp add: bit_length.simps [of n])
  qed
qed

lemma bit_length_lower: "0 < n \<Longrightarrow> 2 ^ (bit_length n - 1) \<le> n"
proof (induction n rule: bit_length.induct)
  case (1 n)
  then have n0: "n \<noteq> 0" by simp
  have bl: "bit_length n = Suc (bit_length (n div 2))"
    using n0 by (simp add: bit_length.simps [of n])
  show ?case
  proof (cases "n div 2 = 0")
    case True
    then have "bit_length (n div 2) = 0" by (simp add: bit_length.simps)
    with bl "1.prems" show ?thesis by simp
  next
    case False
    then have pos: "0 < n div 2" by simp
    from "1.IH" [OF n0 pos] have ih: "2 ^ (bit_length (n div 2) - 1) \<le> n div 2" .
    have "0 < bit_length (n div 2)"
      using False by (simp add: bit_length.simps [of "n div 2"])
    then have "(2::nat) ^ bit_length (n div 2) = 2 * 2 ^ (bit_length (n div 2) - 1)"
      by (cases "bit_length (n div 2)") simp_all
    also have "\<dots> \<le> 2 * (n div 2)" using ih by simp
    also have "\<dots> \<le> n" by simp
    finally show ?thesis by (simp add: bl)
  qed
qed

lemma rne_div_le:
  assumes "0 < d" and "n \<le> K * d"
  shows "rne_div n d \<le> K"
proof (cases "n div d < K")
  case True
  then show ?thesis by (simp add: rne_div_def Let_def)
next
  case False
  have "n div d \<le> K" using assms by (metis div_le_mono div_mult_self_is_m)
  with False have q: "n div d = K" by simp
  have "n mod d = n - K * d" using q by (metis minus_div_mult_eq_mod)
  with assms(2) have "n mod d = 0" by simp
  with q assms(1) show ?thesis by (simp add: rne_div_def Let_def)
qed

lemma dval_nonneg: "0 \<le> dval m e"
  by (simp add: dval_def)

lemma floor_log2_le: "floor_log2 n d \<le> int (bit_length n) - int (bit_length d)"
  by (simp add: floor_log2_def Let_def)

lemma round_double_le:
  assumes "0 < d" and "n \<le> c * d" and "c < 2 ^ 51"
  shows "\<exists>m e. round_double n d = Dbl m e \<and> dval m e \<le> of_nat c"
proof (cases "n = 0")
  case True
  then show ?thesis by (simp add: round_double_def dval_def)
next
  case False
  then have npos: "0 < n" by simp
  define e where "e = max (floor_log2 n d - 52) (- 1074)"
  define s where "s = nat (- e)"
  define m where "m = rne_div (n * 2 ^ s) d"
  have "2 ^ (bit_length n - 1) \<le> n" by (rule bit_length_lower [OF npos])
  also have "n \<le> c * d" by (rule assms(2))
  also have "c * d < 2 ^ 51 * 2 ^ bit_length d"
    using assms(3) bit_length_upper [of d] assms(1)
    by (intro mult_strict_mono) simp_all
  finally have "(2::nat) ^ (bit_length n - 1) < 2 ^ (51 + bit_length d)"
    by (simp add: power_add)
  then have "bit_length n - 1 < 51 + bit_length d"
    by (simp add: power_strict_increasing_iff)
  then have "int (bit_length n) - int (bit_length d) \<le> 51" by linarith
  with floor_log2_le [of n d] have "floor_log2 n d \<le> 51" by linarith
  then have eneg: "e < 0" by (simp add: e_def)
  then have e: "e = - int s" by (simp add: s_def)
  have "n * 2 ^ s \<le> (c * 2 ^ s) * d" using assms(2) by (simp add: mult.commute mult.left_commute)
  then have mle: "m \<le> c * 2 ^ s" unfolding m_def by (rule rne_div_le [OF assms(1)])
  have dv: "dval m e = of_nat m / 2 ^ s" using eneg by (simp add: dval_def s_def)
  have "(of_nat m :: rat) \<le> of_nat (c * 2 ^ s)" using mle by (simp only: of_nat_le_iff)
  then have "(of_nat m :: rat) \<le> of_nat c * 2 ^ s" by simp
  then have le: "dval m e \<le> of_nat c" unfolding dv by (simp add: pos_divide_le_eq)
  have "(of_nat c :: rat) < of_nat ((2::nat) ^ 51)" using assms(3) by (simp only: of_nat_less_iff)
  also have "\<dots> < (2::rat) ^ 1024" by simp
  finally have "dval m e < 2 ^ 1024" using le by simp
  then have "round_double n d = Dbl m e"
    using False eneg by (simp add: round_double_def Let_def e_def [symmetric] m_def s_def)
  with le show ?thesis by blast
qed

lemma float_times_100_le:
  assumes "dval m e \<le> 1"
  shows "\<exists>m' e'. float_times_100 (Dbl m e) = Dbl m' e' \<and> dval m' e' \<le> 100"
proof (cases "0 \<le> e")
  case True
  with assms have "(of_nat (m * 2 ^ nat e) :: rat) \<le> of_nat 1" by (simp add: dval_def)
  then have "m * 2 ^ nat e \<le> 1" by (simp only: of_nat_le_iff)
  then have "m * 100 * 2 ^ nat e \<le> 100 * 1" by simp
  from round_double_le [OF _ this] True show ?thesis
    by (simp add: float_times_100_def)
next
  case False
  with assms have "(of_nat m :: rat) / 2 ^ nat (- e) \<le> 1" by (simp add: dval_def)
  then have "(of_nat m :: rat) \<le> of_nat (2 ^ nat (- e))" by (simp add: pos_divide_le_eq)
  then have "m \<le> 2 ^ nat (- e)" by (simp only: of_nat_le_iff)
  then have "m * 100 \<le> 100 * 2 ^ nat (- e)" by simp
  from round_double_le [OF _ this] False show ?thesis
    by (simp add: float_times_100_def)
qed

lemma percent_expr_bounds:
  assumes "0 < b" and "a \<le> b"
  shows "\<exists>m e. percent_expr a b = Inr (Dbl m e) \<and> 0 \<le> dval m e \<and> dval m e \<le> 100"
proof -
  from round_double_le [of b a 1] assms obtain m1 e1
    where q: "round_double a b = Dbl m1 e1" and q1: "dval m1 e1 \<le> 1" by auto
  from float_times_100_le [OF q1] obtain m e
    where p: "float_times_100 (Dbl m1 e1) = Dbl m e" and p1: "dval m e \<le> 100" by blast
  have "percent_expr a b = Inr (Dbl m e)"
    using assms(1) q p by (simp add: percent_expr_def int_truediv_def)
  with p1 dval_nonneg show ?thesis by blast
qed

lemma percent_expr_none: "0 < b \<Longrightarrow> percent_expr 0 b = Inr (Dbl 0 0)"
  by (simp add: percent_expr_def int_truediv_def float_times_100_def round_double_def)

lemma percent_expr_all:
  assumes "0 < b"
  shows "percent_expr b b = Inr (Dbl 7036874417766400 (- 46))"
proof -
  have "floor_log2 b b = 0" using assms by (simp add: floor_log2_def)
  moreover have "rne_div (b * 4503599627370496) b = 4503599627370496"
    using assms by (simp add: rne_div_def)
  ultimately have q: "round_double b b = Dbl 4503599627370496 (- 52)"
    using assms by (simp add: round_double_def dval_def)
  have "float_times_100 (Dbl 4503599627370496 (- 52)) = Dbl 7036874417766400 (- 46)"
    by (simp add: float_times_100_def round_double_def floor_log2_def bit_length.simps
        rne_div_def dval_def Let_def)
  with q assms show ?thesis by (simp add: percent_expr_def int_truediv_def)
qed

lemma dval_100: "dval 7036874417766400 (- 46) = 100"
  by (simp add: dval_def)

lemma percent_expr_zero: "percent_expr a 0 = Inl ZeroDivisionError"
  by (simp add: percent_expr_def int_truediv_def)

lemma percent_expr_2_3:
  "percent_expr (Suc (Suc 0)) (Suc (Suc (Suc 0))) = Inr (Dbl 4691249611844266 (- 46))"
proof -
  have "percent_expr 2 3 = Inr (Dbl 4691249611844266 (- 46))"
    by (simp add: percent_expr_def int_truediv_def float_times_100_def round_double_def
        floor_log2_def bit_length.simps rne_div_def dval_def Let_def)
  then show ?thesis by (simp only: numeral_2_eq_2 numeral_3_eq_3)
qed

lemma percent_expr_1_2:
  "percent_expr (Suc 0) (Suc (Suc 0)) = Inr (Dbl 7036874417766400 (- 47))"
proof -
  have "percent_expr 1 2 = Inr (Dbl 7036874417766400 (- 47))"
    by (simp add: percent_expr_def int_truediv_def float_times_100_def round_double_def
        floor_log2_def bit_length.simps rne_div_def dval_def Let_def)
  then show ?thesis by (simp only: numeral_2_eq_2 One_nat_def)
qed

lemma dval_50: "dval 7036874417766400 (- 47) = 50"
  by (simp add: dval_def)

subsection \<open>The load report\<close>

lemma length_filter_checkpoint:
  "length (fst (filter_checkpoint C M)) = card (keys C \<inter> keys M)"
proof -
  have "distinct (map fst (fst (filter_checkpoint C M)))"
    unfolding filter_checkpoint_def by (rule filter_loop_distinct) simp
  then have "card (keys (fst (filter_checkpoint C M))) = length (fst (filter_checkpoint C M))"
    unfolding keys_def by (metis distinct_card length_map)
  then show ?thesis
    by (simp add: filter_checkpoint_def filter_loop_keys keys_Nil)
qed

text \<open>
  Claim C3, as amended. When the dictionary that is filtered (the \<^verbatim>\<open>"ema"\<close> entry if
  there is one, the loaded dictionary otherwise) has at least one entry, loading returns
  whatever names are missing from or extra in the checkpoint. The number it reports is
  the value of \<^verbatim>\<open>|applied| / |C| * 100\<close> in Python's double arithmetic: a percentage
  between 0 and 100, exactly 100 when every name of the checkpoint is a name of the model
  and exactly 0 when none is. The dictionary handed to the model has the model's own
  names. Nothing is said of a checkpoint with no entry.
\<close>

theorem C3_load_nonempty:
  assumes "items (select_ema checkpoint) = Inr C" and "C \<noteq> []" and "distinct (map fst C)"
  shows "\<exists>r m e. load_checkpoint checkpoint M = Inr r
           \<and> pretrained_dict r = fst (filter_checkpoint C M)
           \<and> ignored r = snd (filter_checkpoint C M)
           \<and> percent_expr (card (keys C \<inter> keys M)) (card (keys C)) = Inr (percent_loaded r)
           \<and> percent_loaded r = Dbl m e
           \<and> 0 \<le> dval m e \<and> dval m e \<le> 100
           \<and> (keys C \<subseteq> keys M \<longrightarrow> dval m e = 100)
           \<and> (keys C \<inter> keys M = {} \<longrightarrow> dval m e = 0)
           \<and> keys (loaded_state_dict r) = keys M"
proof -
  obtain pd sk where fc: "filter_checkpoint C M = (pd, sk)"
    by (cases "filter_checkpoint C M")
  have lenC: "length C = card (keys C)"
    using assms(3) unfolding keys_def by (metis distinct_card length_map)
  have lenpd: "length pd = card (keys C \<inter> keys M)"
    using length_filter_checkpoint [of C M] by (simp add: fc)
  have le: "length pd \<le> length C"
    unfolding lenC lenpd by (rule card_mono) (auto simp: keys_def)
  have pos: "0 < length C" using assms(2) by simp
  from percent_expr_bounds [OF pos le] obtain m e
    where p: "percent_expr (length pd) (length C) = Inr (Dbl m e)"
      and lo: "0 \<le> dval m e" and hi: "dval m e \<le> 100"
    by blast
  let ?r = "\<lparr>pretrained_dict = pd, ignored = sk,
             percent_loaded = Dbl m e, loaded_state_dict = dict_update M pd\<rparr>"
  have run: "load_checkpoint checkpoint M = Inr ?r"
    unfolding load_checkpoint_def load_params_def assms(1) by (simp add: fc p)
  have pc: "percent_expr (card (keys C \<inter> keys M)) (card (keys C)) = Inr (Dbl m e)"
    using p by (simp only: lenC lenpd)
  have all: "dval m e = 100" if "keys C \<subseteq> keys M"
  proof -
    from that have "keys C \<inter> keys M = keys C" by blast
    then have "length pd = length C" by (simp add: lenC lenpd)
    with p percent_expr_all [OF pos] have "m = 7036874417766400" and "e = - 46" by simp_all
    then show ?thesis by (simp add: dval_100)
  qed
  have none: "dval m e = 0" if "keys C \<inter> keys M = {}"
  proof -
    from that have "length pd = 0" by (simp add: lenpd)
    with p percent_expr_none [OF pos] have "m = 0" by simp
    then show ?thesis by (simp add: dval_def)
  qed
  have ks: "keys (dict_update M pd) = keys M"
    using filter_loop_keys [of C M "([], [])"]
    by (auto simp: keys_dict_update filter_checkpoint_def [symmetric] fc keys_Nil)
  have "load_checkpoint checkpoint M = Inr ?r
           \<and> pretrained_dict ?r = fst (filter_checkpoint C M)
           \<and> ignored ?r = snd (filter_checkpoint C M)
           \<and> percent_expr (card (keys C \<inter> keys M)) (card (keys C)) = Inr (percent_loaded ?r)
           \<and> percent_loaded ?r = Dbl m e
           \<and> 0 \<le> dval m e \<and> dval m e \<le> 100
           \<and> (keys C \<subseteq> keys M \<longrightarrow> dval m e = 100)
           \<and> (keys C \<inter> keys M = {} \<longrightarrow> dval m e = 0)
           \<and> keys (loaded_state_dict ?r) = keys M"
    using run pc lo hi all none ks by (simp add: fc)
  then show ?thesis by blast
qed

theorem C3_load_nonempty_witness:
  "map_sum id percent_loaded (load_checkpoint [(''a'', Tensor (4::nat)), (''b'', Tensor 2), (''c'', Tensor 3)] [(''a'', Tensor 0), (''c'', Tensor 0), (''d'', Tensor 0)]) = Inr (Dbl 4691249611844266 (- 46))
   \<and> dval 4691249611844266 (- 46) = 2345624805922133 / 35184372088832
   \<and> items (select_ema [(''a'', Tensor (4::nat)), (''b'', Tensor 2), (''c'', Tensor 3)])
       = Inr [(''a'', Tensor 4), (''b'', Tensor 2), (''c'', Tensor 3)]
   \<and> distinct (map fst [(''a'', Tensor (4::nat)), (''b'', Tensor 2), (''c'', Tensor 3)])"
proof -
  let ?C = "[(''a'', Tensor (4::nat)), (''b'', Tensor 2), (''c'', Tensor 3)]"
  let ?M = "[(''a'', Tensor (0::nat)), (''c'', Tensor 0), (''d'', Tensor 0)]"
  have i: "items (select_ema ?C) = Inr ?C"
    by (simp add: select_ema_def items_def)
  have d: "distinct (map fst ?C)"
    by simp
  have n: "?C \<noteq> []"
    by simp
  have c1: "card (keys ?C \<inter> keys ?M) = Suc (Suc 0)"
    by (simp add: keys_def)
  have c2: "card (keys ?C) = Suc (Suc (Suc 0))"
    by (simp add: keys_def)
  have v: "dval 4691249611844266 (- 46) = 2345624805922133 / 35184372088832"
    by (simp add: dval_def)
  from C3_load_nonempty [OF i n d, of ?M]
  obtain r where ex: "\<exists>m e. load_checkpoint ?C ?M = Inr r
           \<and> pretrained_dict r = fst (filter_checkpoint ?C ?M)
           \<and> ignored r = snd (filter_checkpoint ?C ?M)
           \<and> percent_expr (card (keys ?C \<inter> keys ?M)) (card (keys ?C)) = Inr (percent_loaded r)
           \<and> percent_loaded r = Dbl m e
           \<and> 0 \<le> dval m e \<and> dval m e \<le> 100
           \<and> (keys ?C \<subseteq> keys ?M \<longrightarrow> dval m e = 100)
           \<and> (keys ?C \<inter> keys ?M = {} \<longrightarrow> dval m e = 0)
           \<and> keys (loaded_state_dict r) = keys ?M" ..
  from ex have r: "load_checkpoint ?C ?M = Inr r"
    by (elim exE conjE)
  from ex have p: "percent_expr (card (keys ?C \<inter> keys ?M)) (card (keys ?C)) = Inr (percent_loaded r)"
    by (elim exE conjE)
  from p have "percent_expr (Suc (Suc 0)) (Suc (Suc (Suc 0))) = Inr (percent_loaded r)"
    by (simp only: c1 c2)
  then have "percent_loaded r = Dbl 4691249611844266 (- 46)"
    by (simp only: percent_expr_2_3 sum.inject)
  then have "map_sum id percent_loaded (load_checkpoint ?C ?M) = Inr (Dbl 4691249611844266 (- 46))"
    by (simp only: r map_sum.simps)
  with i d v show ?thesis by (intro conjI)
qed

text \<open>
  Claim C3 as stated fails. With no entry to filter (an empty dictionary, or an empty
  \<^verbatim>\<open>"ema"\<close> entry) line 95 divides by zero and loading ends in
  \<^verbatim>\<open>ZeroDivisionError\<close>: the script has no convention for that case. And the number
  reported for names \<open>a, b, c\<close> against \<open>a, c, d\<close> is the double
  \<open>4691249611844266 * 2 ^ (- 46)\<close>, which Python prints as
  \<^verbatim>\<open>66.66666666666666\<close>: a percentage, not a fraction in \<open>[0, 1]\<close>.
\<close>

theorem C3_counterexample:
  "load_checkpoint ([] :: nat pydict) [(''a'', Tensor 0)] = Inl ZeroDivisionError
   \<and> load_checkpoint [(''ema'', Dict [])] [(''a'', Tensor (0::nat))] = Inl ZeroDivisionError
   \<and> map_sum id percent_loaded (load_checkpoint [(''a'', Tensor (4::nat)), (''b'', Tensor 2), (''c'', Tensor 3)] [(''a'', Tensor 0), (''c'', Tensor 0), (''d'', Tensor 0)]) = Inr (Dbl 4691249611844266 (- 46))
   \<and> dval 4691249611844266 (- 46) = 2345624805922133 / 35184372088832
   \<and> \<not> (dval 4691249611844266 (- 46) \<le> 1)"
  by (simp add: load_checkpoint_def load_params_def select_ema_def items_def
        filter_checkpoint_def keys_def percent_expr_2_3 percent_expr_zero dval_def)

text \<open>
  Claim C4, as amended. When the loaded dictionary has an entry \<open>E\<close> under \<^verbatim>\<open>"ema"\<close>,
  loading it is lines 88 to 97 run on \<open>E\<close>; this is loading \<open>E\<close> itself whenever \<open>E\<close> is a
  dictionary with no \<^verbatim>\<open>"ema"\<close> name of its own.
\<close>

theorem C4_ema_precedence:
  assumes "map_of C ''ema'' = Some E"
  shows "load_checkpoint C M = load_params E M
         \<and> (\<forall>E'. E = Dict E' \<and> map_of E' ''ema'' = None
                \<longrightarrow> load_checkpoint C M = load_checkpoint E' M)"
  using assms by (simp add: load_checkpoint_def select_ema_def)

theorem C4_ema_precedence_witness:
  "map_of [(''model'', Dict [(''w'', Tensor (5::nat))]),
           (''ema'', Dict [(''w'', Tensor 7), (''x'', Tensor 8)])] ''ema''
     = Some (Dict [(''w'', Tensor 7), (''x'', Tensor 8)])
   \<and> map_of [(''w'', Tensor (7::nat)), (''x'', Tensor 8)] ''ema'' = None
   \<and> load_checkpoint [(''model'', Dict [(''w'', Tensor (5::nat))]),
           (''ema'', Dict [(''w'', Tensor 7), (''x'', Tensor 8)])] [(''w'', Tensor 0)]
     = load_checkpoint [(''w'', Tensor 7), (''x'', Tensor 8)] [(''w'', Tensor 0)]
   \<and> load_checkpoint [(''w'', Tensor (7::nat)), (''x'', Tensor 8)] [(''w'', Tensor 0)]
     = Inr \<lparr>pretrained_dict = [(''w'', Tensor 7)], ignored = [''x''], percent_loaded = Dbl 7036874417766400 (- 47),
            loaded_state_dict = [(''w'', Tensor 7)]\<rparr>"
proof -
  have m: "map_of [(''model'', Dict [(''w'', Tensor (5::nat))]),
           (''ema'', Dict [(''w'', Tensor 7), (''x'', Tensor 8)])] ''ema''
     = Some (Dict [(''w'', Tensor 7), (''x'', Tensor 8)])"
    by simp
  have n: "map_of [(''w'', Tensor (7::nat)), (''x'', Tensor 8)] ''ema'' = None"
    by simp
  have v: "load_checkpoint [(''w'', Tensor (7::nat)), (''x'', Tensor 8)] [(''w'', Tensor 0)]
     = Inr \<lparr>pretrained_dict = [(''w'', Tensor 7)], ignored = [''x''], percent_loaded = Dbl 7036874417766400 (- 47),
            loaded_state_dict = [(''w'', Tensor 7)]\<rparr>"
    by (simp add: load_checkpoint_def load_params_def select_ema_def items_def
        filter_checkpoint_def keys_def dict_update_def percent_expr_1_2)
  show ?thesis
    using C4_ema_precedence [OF m, of "[(''w'', Tensor 0)]"] m n v
    by (simp add: load_checkpoint_def select_ema_def)
qed

text \<open>
  Claim C4 as stated fails when \<open>E\<close> has a name \<^verbatim>\<open>"ema"\<close> itself: the substitution is
  made once. Loading the outer dictionary filters the two entries of \<open>E\<close> (and reports
  the double \<open>7036874417766400 * 2 ^ (- 47)\<close>, that is \<open>50.0\<close>); loading \<open>E\<close> on its
  own substitutes again, reaches a tensor and raises \<^verbatim>\<open>AttributeError\<close>.
\<close>

theorem C4_counterexample:
  "map_of [(''ema'', Dict [(''ema'', Tensor (4::nat)), (''w'', Tensor 2)])] ''ema''
     = Some (Dict [(''ema'', Tensor 4), (''w'', Tensor 2)])
   \<and> load_checkpoint [(''ema'', Dict [(''ema'', Tensor (4::nat)), (''w'', Tensor 2)])]
        [(''w'', Tensor 0)]
     = Inr \<lparr>pretrained_dict = [(''w'', Tensor 2)], ignored = [''ema''], percent_loaded = Dbl 7036874417766400 (- 47),
            loaded_state_dict = [(''w'', Tensor 2)]\<rparr>
   \<and> load_checkpoint [(''ema'', Tensor (4::nat)), (''w'', Tensor 2)] [(''w'', Tensor 0)]
     = Inl AttributeError"
  by (simp add: load_checkpoint_def load_params_def select_ema_def items_def
        filter_checkpoint_def keys_def dict_update_def percent_expr_1_2)

subsection \<open>Output paths\<close>

lemma digit_char_inj:
  assumes "a < 10" and "b < 10" and "digit_char a = digit_char b"
  shows "a = b"
proof -
  have d: "distinct ''0123456789''" by simp
  have "(''0123456789'' ! a = ''0123456789'' ! b) = (a = b)"
    by (rule nth_eq_iff_index_eq [OF d]) (use assms in simp_all)
  with assms(3) show ?thesis by (simp add: digit_char_def)
qed

lemma str_nat_not_Nil: "str_nat n \<noteq> []"
  by (subst str_nat.simps) simp

lemma str_nat_inj: "str_nat n = str_nat m \<Longrightarrow> n = m"
proof (induction n arbitrary: m rule: str_nat.induct)
  case (1 n)
  have sn: "str_nat n = (if n < 10 then [digit_char n] else str_nat (n div 10) @ [digit_char (n mod 10)])"
    by (rule str_nat.simps)
  have sm: "str_nat m = (if m < 10 then [digit_char m] else str_nat (m div 10) @ [digit_char (m mod 10)])"
    by (rule str_nat.simps)
  show ?case
  proof (cases "n < 10")
    case n: True
    show ?thesis
    proof (cases "m < 10")
      case True
      with n sn sm "1.prems" show ?thesis by (auto dest: digit_char_inj)
    next
      case False
      with n sn sm "1.prems" have "str_nat (m div 10) = []" by auto
      then show ?thesis by (simp add: str_nat_not_Nil)
    qed
  next
    case n: False
    show ?thesis
    proof (cases "m < 10")
      case True
      with n sn sm "1.prems" have "str_nat (n div 10) = []" by auto
      then show ?thesis by (simp add: str_nat_not_Nil)
    next
      case False
      with n sn sm "1.prems"
      have e: "str_nat (n div 10) = str_nat (m div 10)"
        and d: "digit_char (n mod 10) = digit_char (m mod 10)" by auto
      from "1.IH" [OF n e] have q: "n div 10 = m div 10" .
      have r: "n mod 10 = m mod 10"
        by (rule digit_char_inj [OF _ _ d]) simp_all
      have "n = 10 * (n div 10) + n mod 10" by simp
      also have "\<dots> = 10 * (m div 10) + m mod 10" using q r by simp
      also have "\<dots> = m" by simp
      finally show ?thesis .
    qed
  qed
qed

lemma output_video_path_eq:
  "output_video_path n = ''application/languagetable_game/all_'' @ str_nat n @ ''-th.mp4''"
  by (simp add: output_video_path_def path_join_def game_dir_def)

lemma output_video_path_inj: "output_video_path i = output_video_path j \<Longrightarrow> i = j"
  by (simp add: output_video_path_eq str_nat_inj)

subsection \<open>The session loop\<close>

lemma session_round_Inr:
  assumes "session_round gen post inp s = Inr s'"
  shows "seg_video_list s' = seg_video_list s @ [drop 1 (t_videos_of gen post inp s)]"
    and "seg_idx s' = Suc (seg_idx s)"
    and "written s' = (written s)(output_video_path (seg_idx s) \<mapsto> Video 4 (all_video s'))"
    and "next_storage s' = Suc (Suc (next_storage s))"
    and "storage (start_image s') = Suc (next_storage s)"
    and "index_t (squeeze (val (seg_latents_of gen inp s))) (- 1) = Inr (val (start_image s'))"
  using assms
  by (auto simp: session_round_def Let_def index_ref_def squeeze_ref_def clone_def all_video_def
      split: sum.splits)

lemma session_round_Inl:
  assumes "session_round gen post inp s = Inl e"
  shows "e = IndexError"
  using assms
  by (auto simp: session_round_def Let_def index_ref_def index_t_def
      split: sum.splits tensor.splits if_splits)

lemma run_rounds_Inl: "run_rounds gen post s ins = Inl e \<Longrightarrow> e = IndexError"
  by (induction ins arbitrary: s) (auto split: sum.splits dest: session_round_Inl)

lemma all_video_round:
  assumes "session_round gen post inp s = Inr s'"
  shows "all_video s' = all_video s @ drop 1 (t_videos_of gen post inp s)"
  using session_round_Inr(1) [OF assms] by (simp add: all_video_def)

lemma all_video_run:
  "run_rounds gen post s0 ins = Inr s \<Longrightarrow>
   all_video s = all_video s0 @ concat (map (drop 1) (round_segments gen post s0 ins))"
proof (induction ins arbitrary: s0)
  case Nil
  then show ?case by simp
next
  case (Cons inp rest)
  then obtain s1 where r: "session_round gen post inp s0 = Inr s1"
    and rest: "run_rounds gen post s1 rest = Inr s"
    by (auto split: sum.splits)
  from Cons.IH [OF rest] all_video_round [OF r] r show ?case by simp
qed

lemma length_round_segments:
  "run_rounds gen post s0 ins = Inr s \<Longrightarrow> length (round_segments gen post s0 ins) = length ins"
  by (induction ins arbitrary: s0) (auto split: sum.splits)

lemma seg_idx_run:
  "run_rounds gen post s0 ins = Inr s \<Longrightarrow> seg_idx s = seg_idx s0 + length ins"
  by (induction ins arbitrary: s0) (auto split: sum.splits dest: session_round_Inr(2))

lemma length_drop1_int: "seg \<noteq> [] \<Longrightarrow> int (length (drop 1 seg)) = int (length seg) - 1"
  by (cases seg) simp_all

lemma length_concat_drop1:
  "\<forall>seg \<in> set segs. seg \<noteq> [] \<Longrightarrow>
   int (length (concat (map (drop 1) segs))) = (\<Sum>seg\<leftarrow>segs. int (length seg) - 1)"
proof (induction segs)
  case Nil
  then show ?case by simp
next
  case (Cons a segs)
  then have "a \<noteq> []" by simp
  then have "int (length (drop 1 a)) = int (length a) - 1"
    by (rule length_drop1_int)
  with Cons show ?case by simp
qed

lemma init_session_Inr:
  assumes "init_session rp fs lat vid = Inr s0"
  shows "all_video s0 = [hd (rp vid)]" and "seg_idx s0 = 0" and "rp vid \<noteq> []"
    and "storage (start_image s0) = 0" and "next_storage s0 = 1"
  using assms
  by (auto simp: init_session_def Let_def all_video_def index_ref_def take_Suc
      split: if_splits sum.splits list.splits)


lemma written_run_old:
  "run_rounds gen post s0 ins = Inr s \<Longrightarrow> i < seg_idx s0 \<Longrightarrow>
   written s (output_video_path i) = written s0 (output_video_path i)"
proof (induction ins arbitrary: s0)
  case Nil
  then show ?case by simp
next
  case (Cons inp rest)
  then obtain s1 where r: "session_round gen post inp s0 = Inr s1"
    and rest: "run_rounds gen post s1 rest = Inr s"
    by (auto split: sum.splits)
  have i1: "i < seg_idx s1" using session_round_Inr(2) [OF r] Cons.prems(2) by simp
  have ne: "output_video_path (seg_idx s0) \<noteq> output_video_path i"
    using Cons.prems(2) output_video_path_inj [of "seg_idx s0" i] by auto
  have "written s (output_video_path i) = written s1 (output_video_path i)"
    by (rule Cons.IH [OF rest i1])
  also have "\<dots> = written s0 (output_video_path i)"
    using ne by (simp add: session_round_Inr(3) [OF r])
  finally show ?case .
qed

lemma written_run:
  "run_rounds gen post s0 ins = Inr s \<Longrightarrow> k < length ins \<Longrightarrow>
   \<exists>sk. run_rounds gen post s0 (take (Suc k) ins) = Inr sk
        \<and> written s (output_video_path (seg_idx s0 + k)) = Some (Video 4 (all_video sk))"
proof (induction ins arbitrary: s0 k)
  case Nil
  then show ?case by simp
next
  case (Cons inp rest)
  then obtain s1 where r: "session_round gen post inp s0 = Inr s1"
    and rest: "run_rounds gen post s1 rest = Inr s"
    by (auto split: sum.splits)
  have idx: "seg_idx s1 = Suc (seg_idx s0)" by (rule session_round_Inr(2) [OF r])
  show ?case
  proof (cases k)
    case 0
    have "written s (output_video_path (seg_idx s0)) = written s1 (output_video_path (seg_idx s0))"
      by (rule written_run_old [OF rest]) (simp add: idx)
    also have "\<dots> = Some (Video 4 (all_video s1))"
      by (simp add: session_round_Inr(3) [OF r])
    finally show ?thesis using 0 r by simp
  next
    case (Suc j)
    with Cons.prems(2) have j: "j < length rest" by simp
    from Cons.IH [OF rest j] obtain sk where
      "run_rounds gen post s1 (take (Suc j) rest) = Inr sk"
      "written s (output_video_path (seg_idx s1 + j)) = Some (Video 4 (all_video sk))"
      by blast
    then show ?thesis using Suc r idx by simp
  qed
qed

lemmas round_eval =
  session_round_def Let_def seg_latents_of_def seed_of_def unsqueeze_ref_def unsqueeze0_def
  squeeze_ref_def index_ref_def index_t_def clone_def t_videos_of_def all_video_def

text \<open>
  Claim C5. The video buffer is \<^verbatim>\<open>np.concatenate(seg_video_list)\<close>. It starts as
  the one frame \<^verbatim>\<open>video_tensor[0:1]\<close>, the first frame of the reference video. A
  round appends its segment without the segment's first frame, in order, so after the
  round the buffer is longer by the segment's length minus one; after any number of
  rounds its length is one plus the sum of the segments' lengths minus one each. A
  segment is what the generator decoded, the seed frame first, so it has a frame to drop.
\<close>

theorem C5_buffer_length:
  assumes "init_session rp fs lat vid = Inr s0"
    and "run_rounds gen post s0 ins = Inr s"
    and "\<forall>seg \<in> set (round_segments gen post s0 ins). seg \<noteq> []"
  shows "all_video s0 = [hd (rp vid)]
       \<and> length (all_video s0) = 1
       \<and> length (round_segments gen post s0 ins) = length ins
       \<and> all_video s = all_video s0 @ concat (map (drop 1) (round_segments gen post s0 ins))
       \<and> int (length (all_video s))
           = 1 + (\<Sum>seg\<leftarrow>round_segments gen post s0 ins. int (length seg) - 1)
       \<and> (\<forall>inp s1 s2. session_round gen post inp s1 = Inr s2
              \<and> t_videos_of gen post inp s1 \<noteq> []
            \<longrightarrow> all_video s2 = all_video s1 @ drop 1 (t_videos_of gen post inp s1)
              \<and> int (length (all_video s2))
                  = int (length (all_video s1)) + int (length (t_videos_of gen post inp s1)) - 1)"
proof -
  have a: "all_video s0 = [hd (rp vid)]" by (rule init_session_Inr(1) [OF assms(1)])
  have b: "length (round_segments gen post s0 ins) = length ins"
    by (rule length_round_segments [OF assms(2)])
  have c: "all_video s = all_video s0 @ concat (map (drop 1) (round_segments gen post s0 ins))"
    by (rule all_video_run [OF assms(2)])
  have d: "int (length (all_video s))
           = 1 + (\<Sum>seg\<leftarrow>round_segments gen post s0 ins. int (length seg) - 1)"
    unfolding c a using length_concat_drop1 [OF assms(3)] by simp
  have e: "all_video s2 = all_video s1 @ drop 1 (t_videos_of gen post inp s1)
           \<and> int (length (all_video s2))
                  = int (length (all_video s1)) + int (length (t_videos_of gen post inp s1)) - 1"
    if "session_round gen post inp s1 = Inr s2" and "t_videos_of gen post inp s1 \<noteq> []"
    for inp s1 s2
    using all_video_round [OF that(1)] length_drop1_int [OF that(2)] by simp
  from a b c d e show ?thesis by simp
qed

theorem C5_buffer_length_witness:
  "\<exists>s0 s. init_session (\<lambda>v. v) Map.empty (Arr [Arr [Scalar (7::nat), Scalar 8]]) [5::nat, 6] = Inr s0
        \<and> run_rounds (\<lambda>(n::nat) (seed::nat tensor) (acts::control list list).
          ([10::nat, 11, 12], Arr [Arr [Arr [Scalar (1::nat), Scalar 2], Arr [Scalar 3, Scalar 4]]])) (\<lambda>g. g) s0 [([''w''], 0), ([''d'', '' ''], 0)] = Inr s
        \<and> round_segments (\<lambda>(n::nat) (seed::nat tensor) (acts::control list list).
          ([10::nat, 11, 12], Arr [Arr [Arr [Scalar (1::nat), Scalar 2], Arr [Scalar 3, Scalar 4]]])) (\<lambda>g. g) s0 [([''w''], 0), ([''d'', '' ''], 0)]
            = [[10, 11, 12], [10, 11, 12]]
        \<and> all_video s0 = [5]
        \<and> all_video s = [5, 11, 12, 11, 12]
        \<and> int (length (all_video s)) = 1 + ((3 - 1) + (3 - 1))"
proof -
  let ?G = "(\<lambda>(n::nat) (seed::nat tensor) (acts::control list list).
          ([10::nat, 11, 12], Arr [Arr [Arr [Scalar (1::nat), Scalar 2], Arr [Scalar 3, Scalar 4]]]))"
  let ?ins = "[([''w''], 0::nat), ([''d'', '' ''], 0)]"
  have "\<exists>s0. init_session (\<lambda>v. v) Map.empty (Arr [Arr [Scalar (7::nat), Scalar 8]]) [5::nat, 6] = Inr s0"
    by (simp add: init_session_def index_ref_def index_t_def)
  then obtain s0 where i: "init_session (\<lambda>v. v) Map.empty (Arr [Arr [Scalar (7::nat), Scalar 8]]) [5::nat, 6] = Inr s0" ..
  have s0: "s0 = \<lparr>start_image = \<lparr>storage = 0, val = Arr [Scalar 7, Scalar 8]\<rparr>,
          seg_video_list = [[5]], seg_idx = 0,
          written = Map.empty(first_image_path \<mapsto> Still 5), next_storage = 1\<rparr>"
    using i by (simp add: init_session_def index_ref_def index_t_def)
  have "\<exists>s. run_rounds ?G (\<lambda>g. g) s0 ?ins = Inr s"
    unfolding s0 by (simp add: round_eval)
  then obtain s where r: "run_rounds ?G (\<lambda>g. g) s0 ?ins = Inr s" ..
  have segs: "round_segments ?G (\<lambda>g. g) s0 ?ins = [[10, 11, 12], [10, 11, 12]]"
    unfolding s0 by (simp add: round_eval)
  have ne: "\<forall>seg \<in> set (round_segments ?G (\<lambda>g. g) s0 ?ins). seg \<noteq> []"
    unfolding segs by simp
  have a0: "all_video s0 = [5]" unfolding s0 by (simp add: all_video_def)
  from C5_buffer_length [OF i r ne]
  have "all_video s = all_video s0 @ concat (map (drop 1) (round_segments ?G (\<lambda>g. g) s0 ?ins))"
    and "int (length (all_video s))
           = 1 + (\<Sum>seg\<leftarrow>round_segments ?G (\<lambda>g. g) s0 ?ins. int (length seg) - 1)"
    by blast+
  then have "all_video s = [5, 11, 12, 11, 12]"
    and "int (length (all_video s)) = 1 + ((3 - 1) + (3 - 1))"
    unfolding segs a0 by simp_all
  with i r segs a0 show ?thesis by blast
qed

text \<open>
  Claim C6, as amended. Let the generator's trajectory of a round be a batch of one
  sequence of at least two latents. After the round \<^verbatim>\<open>start_image\<close> shows the value of
  the last latent of that sequence (\<^verbatim>\<open>squeeze()\<close> having removed the axes of size
  one, if the latent has any), whatever it showed before; and it is a clone: its storage
  is a new one, neither the trajectory's nor the one \<^verbatim>\<open>start_image\<close> had.
\<close>

theorem C6_start_image_clone:
  assumes "session_round gen post inp s = Inr s'"
    and "val (seg_latents_of gen inp s) = Arr [Arr ls]"
    and "2 \<le> length ls"
    and "storage (start_image s) < next_storage s"
  shows "val (start_image s') = squeeze (last ls)
       \<and> storage (start_image s') \<noteq> storage (seg_latents_of gen inp s)
       \<and> storage (start_image s') \<noteq> storage (start_image s)
       \<and> next_storage s \<le> storage (start_image s')
       \<and> storage (start_image s') < next_storage s'"
proof -
  from assms(3) obtain a b rest where ls: "ls = a # b # rest"
    by (cases ls; cases "tl ls") auto
  have ne: "ls \<noteq> []" using ls by simp
  have sq: "squeeze (Arr ls) = Arr (map squeeze ls)"
    by (simp add: ls)
  have "index_t (Arr (map squeeze ls)) (- 1) = Inr (map squeeze ls ! (length ls - 1))"
    using ne by (simp add: index_t_def Let_def nat_diff_distrib')
  also have "map squeeze ls ! (length ls - 1) = squeeze (last ls)"
    using ne by (simp add: last_conv_nth)
  finally have "index_t (squeeze (val (seg_latents_of gen inp s))) (- 1) = Inr (squeeze (last ls))"
    by (simp add: assms(2) sq)
  with session_round_Inr(6) [OF assms(1)]
  have v: "val (start_image s') = squeeze (last ls)" by simp
  have st: "storage (start_image s') = Suc (next_storage s)"
    by (rule session_round_Inr(5) [OF assms(1)])
  have nx: "next_storage s' = Suc (Suc (next_storage s))"
    by (rule session_round_Inr(4) [OF assms(1)])
  have sl: "storage (seg_latents_of gen inp s) = next_storage s"
    by (simp add: seg_latents_of_def)
  from v st nx sl assms(4) show ?thesis by simp
qed

theorem C6_start_image_clone_witness:
  "\<exists>s'. session_round (\<lambda>(n::nat) (seed::nat tensor) (acts::control list list).
          ([10::nat, 11, 12], Arr [Arr [Arr [Scalar (1::nat), Scalar 2], Arr [Scalar 3, Scalar 4]]])) (\<lambda>g. g) ([''w''], 0) \<lparr>start_image = \<lparr>storage = 0, val = Arr [Scalar (7::nat), Scalar 8]\<rparr>,
          seg_video_list = [[5::nat]], seg_idx = 0, written = Map.empty, next_storage = 1\<rparr> = Inr s'
       \<and> val (seg_latents_of (\<lambda>(n::nat) (seed::nat tensor) (acts::control list list).
          ([10::nat, 11, 12], Arr [Arr [Arr [Scalar (1::nat), Scalar 2], Arr [Scalar 3, Scalar 4]]])) ([''w''], 0) \<lparr>start_image = \<lparr>storage = 0, val = Arr [Scalar (7::nat), Scalar 8]\<rparr>,
          seg_video_list = [[5::nat]], seg_idx = 0, written = Map.empty, next_storage = 1\<rparr>)
           = Arr [Arr [Arr [Scalar 1, Scalar 2], Arr [Scalar 3, Scalar 4]]]
       \<and> storage (seg_latents_of (\<lambda>(n::nat) (seed::nat tensor) (acts::control list list).
          ([10::nat, 11, 12], Arr [Arr [Arr [Scalar (1::nat), Scalar 2], Arr [Scalar 3, Scalar 4]]])) ([''w''], 0) \<lparr>start_image = \<lparr>storage = 0, val = Arr [Scalar (7::nat), Scalar 8]\<rparr>,
          seg_video_list = [[5::nat]], seg_idx = 0, written = Map.empty, next_storage = 1\<rparr>) = 1
       \<and> storage (start_image \<lparr>start_image = \<lparr>storage = 0, val = Arr [Scalar (7::nat), Scalar 8]\<rparr>,
          seg_video_list = [[5::nat]], seg_idx = 0, written = Map.empty, next_storage = 1\<rparr>) = 0
       \<and> val (start_image s') = Arr [Scalar 3, Scalar 4]
       \<and> storage (start_image s') = 2"
proof -
  let ?G = "(\<lambda>(n::nat) (seed::nat tensor) (acts::control list list).
          ([10::nat, 11, 12], Arr [Arr [Arr [Scalar (1::nat), Scalar 2], Arr [Scalar 3, Scalar 4]]]))"
  let ?S = "\<lparr>start_image = \<lparr>storage = 0, val = Arr [Scalar (7::nat), Scalar 8]\<rparr>,
          seg_video_list = [[5::nat]], seg_idx = 0, written = Map.empty, next_storage = 1\<rparr>"
  let ?inp = "([''w''], 0::nat)"
  have "\<exists>s'. session_round ?G (\<lambda>g. g) ?inp ?S = Inr s'"
    by (simp add: round_eval)
  then obtain s' where r: "session_round ?G (\<lambda>g. g) ?inp ?S = Inr s'" ..
  have l: "val (seg_latents_of ?G ?inp ?S)
           = Arr [Arr [Arr [Scalar 1, Scalar 2], Arr [Scalar 3, Scalar 4]]]"
    by (simp add: seg_latents_of_def)
  have n: "2 \<le> length [Arr [Scalar (1::nat), Scalar 2], Arr [Scalar 3, Scalar 4]]" by simp
  have w: "storage (start_image ?S) < next_storage ?S" by simp
  have st: "storage (start_image s') = 2"
    using session_round_Inr(5) [OF r] by simp
  from C6_start_image_clone [OF r l n w]
  have "val (start_image s') = Arr [Scalar 3, Scalar 4]" by simp
  with r l st show ?thesis by (simp add: seg_latents_of_def)
qed

text \<open>
  Claim C6 as stated fails. After a round \<^verbatim>\<open>start_image\<close> lives in storage 2 while
  the trajectory the generator returned lives in storage 1: line 167 ends in
  \<^verbatim>\<open>.clone()\<close>, so the tracker holds a copy, not the returned object. And when the
  trajectory holds a single latent, here of shape \<open>(2, 2)\<close>, \<^verbatim>\<open>squeeze()\<close> removes
  the sequence axis as well and \<^verbatim>\<open>[-1]\<close> takes the last row of that latent, not
  the latent.
\<close>

theorem C6_counterexample:
  "map_sum id (\<lambda>s. storage (start_image s)) (session_round (\<lambda>(n::nat) (seed::nat tensor) (acts::control list list).
          ([10::nat, 11, 12], Arr [Arr [Arr [Scalar (1::nat), Scalar 2], Arr [Scalar 3, Scalar 4]]])) (\<lambda>g. g) ([''w''], 0) \<lparr>start_image = \<lparr>storage = 0, val = Arr [Scalar (7::nat), Scalar 8]\<rparr>,
          seg_video_list = [[5::nat]], seg_idx = 0, written = Map.empty, next_storage = 1\<rparr>) = Inr 2
   \<and> storage (seg_latents_of (\<lambda>(n::nat) (seed::nat tensor) (acts::control list list).
          ([10::nat, 11, 12], Arr [Arr [Arr [Scalar (1::nat), Scalar 2], Arr [Scalar 3, Scalar 4]]])) ([''w''], 0) \<lparr>start_image = \<lparr>storage = 0, val = Arr [Scalar (7::nat), Scalar 8]\<rparr>,
          seg_video_list = [[5::nat]], seg_idx = 0, written = Map.empty, next_storage = 1\<rparr>) = 1
   \<and> val (seg_latents_of (\<lambda>(n::nat) (seed::nat tensor) (acts::control list list).
          ([10::nat, 11, 12], Arr [Arr [Arr [Arr [Scalar (1::nat), Scalar 2], Arr [Scalar 3, Scalar 4]]]])) ([''w''], 0) \<lparr>start_image = \<lparr>storage = 0, val = Arr [Scalar (7::nat), Scalar 8]\<rparr>,
          seg_video_list = [[5::nat]], seg_idx = 0, written = Map.empty, next_storage = 1\<rparr>)
       = Arr [Arr [Arr [Arr [Scalar 1, Scalar 2], Arr [Scalar 3, Scalar 4]]]]
   \<and> map_sum id (\<lambda>s. val (start_image s)) (session_round (\<lambda>(n::nat) (seed::nat tensor) (acts::control list list).
          ([10::nat, 11, 12], Arr [Arr [Arr [Arr [Scalar (1::nat), Scalar 2], Arr [Scalar 3, Scalar 4]]]])) (\<lambda>g. g) ([''w''], 0) \<lparr>start_image = \<lparr>storage = 0, val = Arr [Scalar (7::nat), Scalar 8]\<rparr>,
          seg_video_list = [[5::nat]], seg_idx = 0, written = Map.empty, next_storage = 1\<rparr>)
       = Inr (Arr [Scalar 3, Scalar 4])"
  by (simp add: round_eval)

text \<open>
  Claim C8. A round writes the whole buffer as it is after the round, in order, as a
  video at 4 frames per second, to the path made from \<^verbatim>\<open>seg_idx\<close>, and changes no
  other file; \<^verbatim>\<open>seg_idx\<close> grows by one each round, and different indices give
  different paths. So after any number of rounds the file of each earlier round still
  holds the buffer that round wrote.
\<close>

theorem C8_persist_rounds:
  assumes "run_rounds gen post s0 ins = Inr s"
  shows "seg_idx s = seg_idx s0 + length ins
       \<and> (\<forall>k<length ins. \<exists>sk. run_rounds gen post s0 (take (Suc k) ins) = Inr sk
              \<and> written s (output_video_path (seg_idx s0 + k)) = Some (Video 4 (all_video sk)))
       \<and> (\<forall>i j. output_video_path i = output_video_path j \<longrightarrow> i = j)
       \<and> (\<forall>inp s1 s2. session_round gen post inp s1 = Inr s2
            \<longrightarrow> seg_idx s2 = seg_idx s1 + 1
              \<and> written s2 (output_video_path (seg_idx s1)) = Some (Video 4 (all_video s2))
              \<and> (\<forall>p. p \<noteq> output_video_path (seg_idx s1) \<longrightarrow> written s2 p = written s1 p))"
proof -
  have a: "seg_idx s = seg_idx s0 + length ins" by (rule seg_idx_run [OF assms])
  have b: "\<exists>sk. run_rounds gen post s0 (take (Suc k) ins) = Inr sk
              \<and> written s (output_video_path (seg_idx s0 + k)) = Some (Video 4 (all_video sk))"
    if "k < length ins" for k
    by (rule written_run [OF assms that])
  have c: "i = j" if "output_video_path i = output_video_path j" for i j
    by (rule output_video_path_inj [OF that])
  have d: "seg_idx s2 = seg_idx s1 + 1
              \<and> written s2 (output_video_path (seg_idx s1)) = Some (Video 4 (all_video s2))
              \<and> (\<forall>p. p \<noteq> output_video_path (seg_idx s1) \<longrightarrow> written s2 p = written s1 p)"
    if "session_round gen post inp s1 = Inr s2" for inp s1 s2
    using session_round_Inr(2,3) [OF that] by simp
  from a b c d show ?thesis by blast
qed


lemma path0: "output_video_path 0 = ''application/languagetable_game/all_0-th.mp4''"
  by (simp add: output_video_path_eq str_nat.simps [of 0] digit_char_def)

lemma path1: "output_video_path 1 = ''application/languagetable_game/all_1-th.mp4''"
  by (simp add: output_video_path_eq str_nat.simps [of "Suc 0"] digit_char_def)

theorem C8_persist_rounds_witness:
  "\<exists>s. run_rounds (\<lambda>(n::nat) (seed::nat tensor) (acts::control list list).
          ([10::nat, 11, 12], Arr [Arr [Arr [Scalar (1::nat), Scalar 2], Arr [Scalar 3, Scalar 4]]])) (\<lambda>g. g) \<lparr>start_image = \<lparr>storage = 0, val = Arr [Scalar (7::nat), Scalar 8]\<rparr>,
          seg_video_list = [[5::nat]], seg_idx = 0, written = Map.empty, next_storage = 1\<rparr> [([''w''], 0), ([''d'', '' ''], 0)] = Inr s
      \<and> seg_idx s = 2
      \<and> written s ''application/languagetable_game/all_0-th.mp4'' = Some (Video 4 [5, 11, 12])
      \<and> written s ''application/languagetable_game/all_1-th.mp4''
          = Some (Video 4 [5, 11, 12, 11, 12])"
proof -
  let ?G = "(\<lambda>(n::nat) (seed::nat tensor) (acts::control list list).
          ([10::nat, 11, 12], Arr [Arr [Arr [Scalar (1::nat), Scalar 2], Arr [Scalar 3, Scalar 4]]]))"
  let ?S = "\<lparr>start_image = \<lparr>storage = 0, val = Arr [Scalar (7::nat), Scalar 8]\<rparr>,
          seg_video_list = [[5::nat]], seg_idx = 0, written = Map.empty, next_storage = 1\<rparr>"
  let ?ins = "[([''w''], 0::nat), ([''d'', '' ''], 0)]"
  have "\<exists>s. run_rounds ?G (\<lambda>g. g) ?S ?ins = Inr s"
    by (simp add: round_eval)
  then obtain s where r: "run_rounds ?G (\<lambda>g. g) ?S ?ins = Inr s" ..
  note c = C8_persist_rounds [OF r]
  from c have idx: "seg_idx s = 2" by simp
  from c obtain sa where a: "run_rounds ?G (\<lambda>g. g) ?S (take (Suc 0) ?ins) = Inr sa"
    "written s (output_video_path (seg_idx ?S + 0)) = Some (Video 4 (all_video sa))"
    by (metis length_Cons zero_less_Suc)
  from c obtain sb where b: "run_rounds ?G (\<lambda>g. g) ?S (take (Suc 1) ?ins) = Inr sb"
    "written s (output_video_path (seg_idx ?S + 1)) = Some (Video 4 (all_video sb))"
    by (metis One_nat_def length_Cons lessI list.size(3))
  have va: "all_video sa = [5, 11, 12]"
    using a(1) by (auto simp: round_eval)
  have vb: "all_video sb = [5, 11, 12, 11, 12]"
    using b(1) by (auto simp: round_eval)
  from a(2) b(2) va vb idx r show ?thesis
    by (simp add: path0 path1 del: One_nat_def)
qed

subsection \<open>The arrow overlay\<close>

lemma create_arrow_image_50:
  "create_arrow_image A d 50 c =
     Inr (if d = ''s'' then flipud A else if d = ''a'' then rot90 A 1
          else if d = ''d'' then rot90 A (- 1) else A)"
  by (simp add: create_arrow_image_def np_zeros_def)

lemma paint_row_Inl: "paint_row frame i j ps = Inl e \<Longrightarrow> e = IndexError"
  by (induction ps arbitrary: frame j) (auto simp: Let_def split: if_splits)

lemma paint_rows_Inl: "paint_rows frame i rows = Inl e \<Longrightarrow> e = IndexError"
  by (induction rows arbitrary: frame i) (auto split: sum.splits dest: paint_row_Inl)

lemma draw_arrow_Inl: "draw_arrow A frame action = Inl e \<Longrightarrow> e = IndexError"
  by (auto simp: draw_arrow_def create_arrow_image_50 split: if_splits dest: paint_rows_Inl)

lemma arrows_loop_Inl: "arrows_loop A fas out = Inl e \<Longrightarrow> e = IndexError"
  by (induction A fas out rule: arrows_loop.induct) (auto split: sum.splits dest: draw_arrow_Inl)

lemma arrows_loop_Inr:
  "arrows_loop A fas out = Inr frames \<Longrightarrow>
   \<exists>ps. frames = out @ ps \<and> length ps = length fas
      \<and> (\<forall>k<length fas. draw_arrow A (fst (fas ! k)) (snd (fas ! k)) = Inr (ps ! k))"
proof (induction A fas out arbitrary: frames rule: arrows_loop.induct)
  case (1 arrow_jpg out)
  then show ?case by simp
next
  case (2 arrow_jpg frame action rest out)
  then obtain painted where d: "draw_arrow arrow_jpg frame action = Inr painted"
    and r: "arrows_loop arrow_jpg rest (out @ [painted]) = Inr frames"
    by (auto split: sum.splits)
  from "2.IH" [OF d r] obtain ps where ps: "frames = (out @ [painted]) @ ps"
    "length ps = length rest"
    "\<forall>k<length rest. draw_arrow arrow_jpg (fst (rest ! k)) (snd (rest ! k)) = Inr (ps ! k)"
    by blast
  have "\<forall>k<length ((frame, action) # rest).
          draw_arrow arrow_jpg (fst (((frame, action) # rest) ! k)) (snd (((frame, action) # rest) ! k))
            = Inr ((painted # ps) ! k)"
    using d ps(3) by (auto simp: nth_Cons split: nat.splits)
  with ps(1,2) show ?case
    by (intro exI [of _ "painted # ps"]) simp
qed

lemma paint_row_Inr:
  "paint_row frame i j ps = Inr f \<Longrightarrow>
   length f = length frame
   \<and> (\<forall>y<length frame. length (f ! y) = length (frame ! y)
        \<and> (\<forall>x<length (frame ! y).
             f ! y ! x =
               (if y = fst position + i \<and> snd position + j \<le> x
                   \<and> x - (snd position + j) < length ps
                   \<and> nonzero (ps ! (x - (snd position + j)))
                then ps ! (x - (snd position + j)) else frame ! y ! x)))"
proof (induction ps arbitrary: frame j)
  case Nil
  then show ?case by simp
next
  case (Cons p ps)
  let ?y = "fst position + i" and ?x = "snd position + j"
  show ?case
  proof (cases "nonzero p")
    case False
    with Cons.prems have r: "paint_row frame i (Suc j) ps = Inr f" by simp
    note ih = Cons.IH [OF r]
    show ?thesis
    proof (intro conjI allI impI)
      show "length f = length frame" using ih by blast
    next
      fix y assume y: "y < length frame"
      show "length (f ! y) = length (frame ! y)" using ih y by blast
    next
      fix y x assume y: "y < length frame" and x: "x < length (frame ! y)"
      from ih y x have e: "f ! y ! x =
               (if y = ?y \<and> snd position + Suc j \<le> x
                   \<and> x - (snd position + Suc j) < length ps
                   \<and> nonzero (ps ! (x - (snd position + Suc j)))
                then ps ! (x - (snd position + Suc j)) else frame ! y ! x)" by blast
      show "f ! y ! x =
               (if y = ?y \<and> ?x \<le> x \<and> x - ?x < length (p # ps)
                   \<and> nonzero ((p # ps) ! (x - ?x))
                then (p # ps) ! (x - ?x) else frame ! y ! x)"
      proof (cases "x = ?x")
        case True
        then show ?thesis using e False by simp
      next
        case ne: False
        show ?thesis
        proof (cases "?x < x")
          case True
          then obtain d where d: "x - ?x = Suc d" "x - (snd position + Suc j) = d"
            by (metis Suc_diff_Suc add_Suc_right diff_Suc_Suc)
          show ?thesis using e True d by simp
        next
          case False
          with ne have "x < ?x" by simp
          then show ?thesis using e by simp
        qed
      qed
    qed
  next
    case True
    with Cons.prems have b: "?y < length frame" "?x < length (frame ! ?y)"
      and r: "paint_row (frame[?y := (frame ! ?y)[?x := p]]) i (Suc j) ps = Inr f"
      by (auto simp: Let_def split: if_splits)
    let ?g = "frame[?y := (frame ! ?y)[?x := p]]"
    note ih = Cons.IH [OF r]
    have lg: "length ?g = length frame" by simp
    have lgy: "length (?g ! y) = length (frame ! y)" if "y < length frame" for y
      using that by (cases "y = ?y") simp_all
    have gyx: "?g ! y ! x = (if y = ?y \<and> x = ?x then p else frame ! y ! x)"
      if "y < length frame" "x < length (frame ! y)" for y x
      using that by (cases "y = ?y"; cases "x = ?x") simp_all
    show ?thesis
    proof (intro conjI allI impI)
      show "length f = length frame" using ih lg by simp
    next
      fix y assume y: "y < length frame"
      show "length (f ! y) = length (frame ! y)" using ih y lg lgy by simp
    next
      fix y x assume y: "y < length frame" and x: "x < length (frame ! y)"
      from ih y x lg lgy have e: "f ! y ! x =
               (if y = ?y \<and> snd position + Suc j \<le> x
                   \<and> x - (snd position + Suc j) < length ps
                   \<and> nonzero (ps ! (x - (snd position + Suc j)))
                then ps ! (x - (snd position + Suc j)) else ?g ! y ! x)" by simp
      show "f ! y ! x =
               (if y = ?y \<and> ?x \<le> x \<and> x - ?x < length (p # ps)
                   \<and> nonzero ((p # ps) ! (x - ?x))
                then (p # ps) ! (x - ?x) else frame ! y ! x)"
      proof (cases "x = ?x")
        case eq: True
        then show ?thesis using e True gyx [OF y x] by simp
      next
        case ne: False
        show ?thesis
        proof (cases "?x < x")
          case lt: True
          then obtain d where d: "x - ?x = Suc d" "x - (snd position + Suc j) = d"
            by (metis Suc_diff_Suc add_Suc_right diff_Suc_Suc)
          show ?thesis using e lt d ne gyx [OF y x] by simp
        next
          case False
          with ne have "x < ?x" by simp
          then show ?thesis using e ne gyx [OF y x] by simp
        qed
      qed
    qed
  qed
qed


lemma paint_rows_Inr:
  "paint_rows frame i rows = Inr f \<Longrightarrow>
   length f = length frame
   \<and> (\<forall>y<length frame. length (f ! y) = length (frame ! y)
        \<and> (\<forall>x<length (frame ! y).
             f ! y ! x =
               (if fst position + i \<le> y \<and> y - (fst position + i) < length rows
                   \<and> snd position \<le> x
                   \<and> x - snd position < length (rows ! (y - (fst position + i)))
                   \<and> nonzero (rows ! (y - (fst position + i)) ! (x - snd position))
                then rows ! (y - (fst position + i)) ! (x - snd position)
                else frame ! y ! x)))"
proof (induction rows arbitrary: frame i)
  case Nil
  then show ?case by simp
next
  case (Cons r rs)
  let ?y = "fst position + i"
  from Cons.prems obtain g where g: "paint_row frame i 0 r = Inr g"
    and f: "paint_rows g (Suc i) rs = Inr f"
    by (auto split: sum.splits)
  note pr = paint_row_Inr [OF g]
  note ih = Cons.IH [OF f]
  have lg: "length g = length frame" using pr by blast
  have lgy: "length (g ! y) = length (frame ! y)" if "y < length frame" for y
    using pr that by blast
  have gyx: "g ! y ! x =
       (if y = ?y \<and> snd position \<le> x \<and> x - snd position < length r
           \<and> nonzero (r ! (x - snd position))
        then r ! (x - snd position) else frame ! y ! x)"
    if "y < length frame" "x < length (frame ! y)" for y x
    using pr that by simp
  show ?case
  proof (intro conjI allI impI)
    show "length f = length frame" using ih lg by simp
  next
    fix y assume y: "y < length frame"
    show "length (f ! y) = length (frame ! y)" using ih y lg lgy by simp
  next
    fix y x assume y: "y < length frame" and x: "x < length (frame ! y)"
    from ih y x lg lgy have e: "f ! y ! x =
               (if fst position + Suc i \<le> y \<and> y - (fst position + Suc i) < length rs
                   \<and> snd position \<le> x
                   \<and> x - snd position < length (rs ! (y - (fst position + Suc i)))
                   \<and> nonzero (rs ! (y - (fst position + Suc i)) ! (x - snd position))
                then rs ! (y - (fst position + Suc i)) ! (x - snd position)
                else g ! y ! x)" by simp
    show "f ! y ! x =
               (if ?y \<le> y \<and> y - ?y < length (r # rs)
                   \<and> snd position \<le> x
                   \<and> x - snd position < length ((r # rs) ! (y - ?y))
                   \<and> nonzero ((r # rs) ! (y - ?y) ! (x - snd position))
                then (r # rs) ! (y - ?y) ! (x - snd position)
                else frame ! y ! x)"
    proof (cases "y = ?y")
      case True
      then show ?thesis using e gyx [OF y x] by simp
    next
      case ne: False
      show ?thesis
      proof (cases "?y < y")
        case lt: True
        then obtain d where d: "y - ?y = Suc d" "y - (fst position + Suc i) = d"
          by (metis Suc_diff_Suc add_Suc_right diff_Suc_Suc)
        show ?thesis using e lt d ne gyx [OF y x] by simp
      next
        case False
        with ne have "y < ?y" by simp
        then show ?thesis using e ne gyx [OF y x] by simp
      qed
    qed
  qed
qed

lemma add_arrows_Inr:
  assumes "add_arrows_to_video A video path actions = Inr (p, Video fps frames)"
  shows "p = path \<and> fps = 4 \<and> length frames = length video \<and> length actions = length video
         \<and> (\<forall>k<length video. draw_arrow A (video ! k) (actions ! k) = Inr (frames ! k))"
proof -
  from assms have len: "length actions = length video"
    and l: "arrows_loop A (zip video actions) [] = Inr frames" and pp: "p = path" "fps = 4"
    by (auto simp: add_arrows_to_video_def split: if_splits sum.splits)
  from arrows_loop_Inr [OF l] len show ?thesis using pp by auto
qed

lemma arrows_loop_blank:
  "\<forall>fa \<in> set fas. snd fa = '' '' \<Longrightarrow> arrows_loop A fas out = Inr (out @ map fst fas)"
  by (induction A fas out rule: arrows_loop.induct) (auto simp: draw_arrow_def)

text \<open>
  Claim C7. \<^verbatim>\<open>add_arrows_to_video\<close> raises its \<^verbatim>\<open>ValueError\<close> exactly when
  the number of actions differs from the number of frames, and it raises no other
  \<^verbatim>\<open>ValueError\<close>; with equal lengths it goes on to the frames (and with blank
  actions only it writes the video as it is). The session loop has no such check: neither
  a round nor a run of rounds ends in that error, whatever the numbers of actions and of
  generated frames.
\<close>

theorem C7_length_check:
  "(add_arrows_to_video A video path actions = Inl (ValueError length_message))
      = (length actions \<noteq> length video)
   \<and> (\<forall>m. add_arrows_to_video A video path actions = Inl (ValueError m)
          \<longrightarrow> length actions \<noteq> length video \<and> m = length_message)
   \<and> (length actions = length video \<and> (\<forall>a \<in> set actions. a = '' '')
          \<longrightarrow> add_arrows_to_video A video path actions = Inr (path, Video 4 video))
   \<and> session_round gen post inp s \<noteq> Inl (ValueError length_message)
   \<and> run_rounds gen post s ins \<noteq> Inl (ValueError length_message)"
proof -
  have a: "length actions \<noteq> length video \<and> m = length_message"
    if "add_arrows_to_video A video path actions = Inl (ValueError m)" for m
    using that
    by (auto simp: add_arrows_to_video_def split: if_splits sum.splits dest: arrows_loop_Inl)
  have b: "add_arrows_to_video A video path actions = Inl (ValueError length_message)"
    if "length actions \<noteq> length video"
    using that by (simp add: add_arrows_to_video_def)
  have c: "add_arrows_to_video A video path actions = Inr (path, Video 4 video)"
    if "length actions = length video" and "\<forall>a \<in> set actions. a = '' ''"
  proof -
    have "\<forall>fa \<in> set (zip video actions). snd fa = '' ''"
      using that(2) by (auto dest: set_zip_rightD)
    then have "arrows_loop A (zip video actions) [] = Inr ([] @ map fst (zip video actions))"
      by (rule arrows_loop_blank)
    then show ?thesis using that(1) by (simp add: add_arrows_to_video_def)
  qed
  have d: "session_round gen post inp s \<noteq> Inl (ValueError length_message)"
    using session_round_Inl [of gen post inp s "ValueError length_message"] by auto
  have e: "run_rounds gen post s ins \<noteq> Inl (ValueError length_message)"
    using run_rounds_Inl [of gen post s ins "ValueError length_message"] by auto
  from a b c d e show ?thesis by blast
qed

theorem C7_length_check_witness:
  "add_arrows_to_video [[(9, 9, 9)]] [[[(0, 0, 0)]]] ''out.mp4'' [] = Inl (ValueError length_message)
   \<and> length ([] :: string list) \<noteq> length [[[(0, 0, 0) :: pixel]]]
   \<and> add_arrows_to_video [[(9, 9, 9)]] [[[(0, 0, 0)]]] ''out.mp4'' ['' '']
       = Inr (''out.mp4'', Video 4 [[[(0, 0, 0)]]])
   \<and> add_arrows_to_video [[(9, 9, 9)]] [[[(0, 0, 0)]]] ''out.mp4'' [''w''] = Inl IndexError"
proof -
  have n: "length ([] :: string list) \<noteq> length [[[(0, 0, 0) :: pixel]]]" by simp
  have a: "add_arrows_to_video [[(9, 9, 9)]] [[[(0, 0, 0)]]] ''out.mp4'' []
             = Inl (ValueError length_message)"
    using C7_length_check [of "[[(9, 9, 9)]]" "[[[(0, 0, 0)]]]" "''out.mp4''" "[]",
        THEN conjunct1] n
    by simp
  have b: "add_arrows_to_video [[(9, 9, 9)]] [[[(0, 0, 0)]]] ''out.mp4'' ['' '']
       = Inr (''out.mp4'', Video 4 [[[(0, 0, 0)]]])"
    using C7_length_check [of "[[(9, 9, 9)]]" "[[[(0, 0, 0)]]]" "''out.mp4''" "['' '']",
        THEN conjunct2, THEN conjunct2, THEN conjunct1]
    by simp
  have c: "add_arrows_to_video [[(9, 9, 9)]] [[[(0, 0, 0)]]] ''out.mp4'' [''w''] = Inl IndexError"
    by (simp add: add_arrows_to_video_def draw_arrow_def create_arrow_image_50 nonzero_def
        position_def Let_def)
  from n a b c show ?thesis by simp
qed

text \<open>
  Claim C9. A frame paired with the blank action is written as it is. For any other
  action the painted frame has the shape of the frame, and each of its pixels is the
  arrow's pixel where the pixel lies in the arrow's box placed at row 200 and column 240
  and the arrow's pixel there is not zero in some channel, and the frame's own pixel
  everywhere else. The frames written to the file are the painted frames, in order.
\<close>

theorem C9_overlay_pixels:
  "draw_arrow A frame '' '' = Inr frame
   \<and> (action \<noteq> '' '' \<and> draw_arrow A frame action = Inr painted \<longrightarrow>
        (\<exists>arrow_img. create_arrow_image A action 50 (255, 0, 0) = Inr arrow_img
          \<and> length painted = length frame
          \<and> (\<forall>y<length frame. length (painted ! y) = length (frame ! y)
               \<and> (\<forall>x<length (frame ! y).
                    painted ! y ! x =
                      (if 200 \<le> y \<and> y - 200 < length arrow_img
                          \<and> 240 \<le> x \<and> x - 240 < length (arrow_img ! (y - 200))
                          \<and> nonzero (arrow_img ! (y - 200) ! (x - 240))
                       then arrow_img ! (y - 200) ! (x - 240)
                       else frame ! y ! x)))))
   \<and> (add_arrows_to_video A video path actions = Inr (p, Video fps frames) \<longrightarrow>
        p = path \<and> fps = 4 \<and> length frames = length video
        \<and> (\<forall>k<length video. draw_arrow A (video ! k) (actions ! k) = Inr (frames ! k)))"
proof -
  have a: "draw_arrow A frame '' '' = Inr frame" by (simp add: draw_arrow_def)
  have b: "\<exists>arrow_img. create_arrow_image A action 50 (255, 0, 0) = Inr arrow_img
          \<and> length painted = length frame
          \<and> (\<forall>y<length frame. length (painted ! y) = length (frame ! y)
               \<and> (\<forall>x<length (frame ! y).
                    painted ! y ! x =
                      (if 200 \<le> y \<and> y - 200 < length arrow_img
                          \<and> 240 \<le> x \<and> x - 240 < length (arrow_img ! (y - 200))
                          \<and> nonzero (arrow_img ! (y - 200) ! (x - 240))
                       then arrow_img ! (y - 200) ! (x - 240)
                       else frame ! y ! x)))"
    if "action \<noteq> '' ''" and "draw_arrow A frame action = Inr painted"
  proof -
    from that obtain arrow_img where
      c: "create_arrow_image A action 50 (255, 0, 0) = Inr arrow_img"
      and p: "paint_rows frame 0 arrow_img = Inr painted"
      by (auto simp: draw_arrow_def split: sum.splits)
    from paint_rows_Inr [OF p] c show ?thesis
      by (intro exI [of _ arrow_img]) (simp add: position_def)
  qed
  have c: "p = path \<and> fps = 4 \<and> length frames = length video
        \<and> (\<forall>k<length video. draw_arrow A (video ! k) (actions ! k) = Inr (frames ! k))"
    if "add_arrows_to_video A video path actions = Inr (p, Video fps frames)"
    using add_arrows_Inr [OF that] by blast
  from a b c show ?thesis by blast
qed


theorem C9_overlay_pixels_witness:
  "draw_arrow [[(9, 9, 9), (0, 0, 0)]] (replicate 201 (replicate 242 (1, 1, 1)) :: image) ''w''
     = Inr ((replicate 201 (replicate 242 (1, 1, 1)) :: image)
              [200 := (replicate 242 (1, 1, 1))[240 := (9, 9, 9)]])
   \<and> create_arrow_image [[(9, 9, 9), (0, 0, 0)]] ''w'' 50 (255, 0, 0)
       = Inr [[(9, 9, 9), (0, 0, 0)]]
   \<and> ((replicate 201 (replicate 242 (1, 1, 1)) :: image)
              [200 := (replicate 242 (1, 1, 1))[240 := (9, 9, 9)]]) ! 200 ! 240 = (9, 9, 9)
   \<and> ((replicate 201 (replicate 242 (1, 1, 1)) :: image)
              [200 := (replicate 242 (1, 1, 1))[240 := (9, 9, 9)]]) ! 200 ! 241 = (1, 1, 1)
   \<and> ((replicate 201 (replicate 242 (1, 1, 1)) :: image)
              [200 := (replicate 242 (1, 1, 1))[240 := (9, 9, 9)]]) ! 3 ! 5 = (1, 1, 1)"
proof -
  let ?A = "[[(9, 9, 9), (0, 0, 0)]] :: image"
  let ?F = "replicate 201 (replicate 242 (1, 1, 1)) :: image"
  let ?P = "?F[200 := (replicate 242 (1, 1, 1))[240 := (9, 9, 9)]]"
  have d: "draw_arrow ?A ?F ''w'' = Inr ?P"
    by (simp add: draw_arrow_def create_arrow_image_50 nonzero_def position_def Let_def)
  have c: "create_arrow_image ?A ''w'' 50 (255, 0, 0) = Inr ?A"
    by (simp add: create_arrow_image_50)
  have w: "''w'' \<noteq> '' ''" by simp
  from C9_overlay_pixels [of ?A ?F "''w''" ?P] w d c
  have px: "\<forall>y<length ?F. \<forall>x<length (?F ! y).
              ?P ! y ! x =
                (if 200 \<le> y \<and> y - 200 < length ?A \<and> 240 \<le> x \<and> x - 240 < length (?A ! (y - 200))
                    \<and> nonzero (?A ! (y - 200) ! (x - 240))
                 then ?A ! (y - 200) ! (x - 240) else ?F ! y ! x)"
    by simp
  have p1: "?P ! 200 ! 240 = (9, 9, 9)" using px [rule_format, of 200 240] by (simp add: nonzero_def)
  have p2: "?P ! 200 ! 241 = (1, 1, 1)" using px [rule_format, of 200 241] by (simp add: nonzero_def)
  have p3: "?P ! 3 ! 5 = (1, 1, 1)" using px [rule_format, of 3 5] by simp
  from d c p1 p2 p3 show ?thesis by blast
qed

lemma shape1_flip1: "shape1 (flip1 A) = shape1 A"
  by (cases A) (simp_all add: shape1_def flip1_def)

lemma rectangular_nth: "rectangular A \<Longrightarrow> j < length A \<Longrightarrow> length (A ! j) = shape1 A"
  by (simp add: rectangular_def)

lemma flipud_nth: "i < length A \<Longrightarrow> flipud A ! i = A ! (length A - 1 - i)"
  by (simp add: flipud_def rev_nth)

lemma rot90_ccw:
  assumes "rectangular A"
  shows "length (rot90 A 1) = shape1 A"
    and "i < shape1 A \<Longrightarrow> length (rot90 A 1 ! i) = length A"
    and "i < shape1 A \<Longrightarrow> j < length A \<Longrightarrow> rot90 A 1 ! i ! j = A ! j ! (shape1 A - 1 - i)"
proof -
  have r: "rot90 A 1 = map (\<lambda>c. map (\<lambda>r. r ! c) (map rev A)) [0..<shape1 A]"
    by (simp add: rot90_def np_transpose_def shape1_flip1) (simp add: flip1_def)
  show "length (rot90 A 1) = shape1 A" by (simp add: r)
  show "length (rot90 A 1 ! i) = length A" if "i < shape1 A"
    using that by (simp add: r)
  show "rot90 A 1 ! i ! j = A ! j ! (shape1 A - 1 - i)" if "i < shape1 A" "j < length A"
    using that rectangular_nth [OF assms that(2)] by (simp add: r rev_nth)
qed

lemma rot90_cw:
  shows "length (rot90 A (- 1)) = shape1 A"
    and "i < shape1 A \<Longrightarrow> length (rot90 A (- 1) ! i) = length A"
    and "i < shape1 A \<Longrightarrow> j < length A \<Longrightarrow> rot90 A (- 1) ! i ! j = A ! (length A - 1 - j) ! i"
proof -
  have r: "rot90 A (- 1) = map rev (map (\<lambda>c. map (\<lambda>r. r ! c) A) [0..<shape1 A])"
    by (simp add: rot90_def np_transpose_def flip1_def)
  show "length (rot90 A (- 1)) = shape1 A" by (simp add: r)
  show "length (rot90 A (- 1) ! i) = length A" if "i < shape1 A"
    using that by (simp add: r)
  show "rot90 A (- 1) ! i ! j = A ! (length A - 1 - j) ! i" if "i < shape1 A" "j < length A"
    using that by (simp add: r rev_nth)
qed

text \<open>
  Claim C10, as amended. For every size that is not negative and every colour, the
  result is the image read from the file, reversed top to bottom for \<open>s\<close>, turned a
  quarter counter-clockwise for \<open>a\<close> (row \<open>i\<close> of the result is column
  \<open>columns - 1 - i\<close> of the image, read downwards), turned a quarter clockwise for \<open>d\<close>
  (row \<open>i\<close> of the result is column \<open>i\<close> of the image, read upwards), and the image
  itself for \<open>w\<close> and every other direction; so it is the same for all such sizes and
  colours.
\<close>

theorem C10_arrow_direction:
  assumes "0 \<le> sz"
  shows "create_arrow_image A d sz c
           = Inr (if d = ''s'' then flipud A
                  else if d = ''a'' then rot90 A 1
                  else if d = ''d'' then rot90 A (- 1)
                  else A)
       \<and> (\<forall>sz' c'. 0 \<le> sz' \<longrightarrow> create_arrow_image A d sz' c' = create_arrow_image A d sz c)
       \<and> length (flipud A) = length A
       \<and> (\<forall>i<length A. flipud A ! i = A ! (length A - 1 - i))
       \<and> (rectangular A \<longrightarrow>
            length (rot90 A 1) = shape1 A
            \<and> (\<forall>i. i < shape1 A \<longrightarrow> length (rot90 A 1 ! i) = length A
                 \<and> (\<forall>j<length A. rot90 A 1 ! i ! j = A ! j ! (shape1 A - 1 - i))))
       \<and> length (rot90 A (- 1)) = shape1 A
       \<and> (\<forall>i. i < shape1 A \<longrightarrow> length (rot90 A (- 1) ! i) = length A
             \<and> (\<forall>j<length A. rot90 A (- 1) ! i ! j = A ! (length A - 1 - j) ! i))"
proof -
  have v: "create_arrow_image A d n k
           = Inr (if d = ''s'' then flipud A
                  else if d = ''a'' then rot90 A 1
                  else if d = ''d'' then rot90 A (- 1)
                  else A)" if "0 \<le> n" for n k
    using that by (simp add: create_arrow_image_def np_zeros_def)
  have f: "length (flipud A) = length A" by (simp add: flipud_def)
  from v [OF assms] v f flipud_nth rot90_ccw rot90_cw
  show ?thesis by simp
qed

theorem C10_arrow_direction_witness:
  "rectangular [[(1, 0, 0), (2, 0, 0)], [(3, 0, 0), (4, 0, 0)]]
   \<and> create_arrow_image [[(1, 0, 0), (2, 0, 0)], [(3, 0, 0), (4, 0, 0)]] ''s'' 50 (255, 0, 0)
       = Inr [[(3, 0, 0), (4, 0, 0)], [(1, 0, 0), (2, 0, 0)]]
   \<and> create_arrow_image [[(1, 0, 0), (2, 0, 0)], [(3, 0, 0), (4, 0, 0)]] ''a'' 7 (0, 0, 255)
       = Inr [[(2, 0, 0), (4, 0, 0)], [(1, 0, 0), (3, 0, 0)]]
   \<and> create_arrow_image [[(1, 0, 0), (2, 0, 0)], [(3, 0, 0), (4, 0, 0)]] ''d'' 0 (255, 0, 0)
       = Inr [[(3, 0, 0), (1, 0, 0)], [(4, 0, 0), (2, 0, 0)]]
   \<and> create_arrow_image [[(1, 0, 0), (2, 0, 0)], [(3, 0, 0), (4, 0, 0)]] ''x'' 50 (255, 0, 0)
       = Inr [[(1, 0, 0), (2, 0, 0)], [(3, 0, 0), (4, 0, 0)]]"
proof -
  let ?A = "[[(1, 0, 0), (2, 0, 0)], [(3, 0, 0), (4, 0, 0)]] :: image"
  have r: "rectangular ?A" by (simp add: rectangular_def shape1_def)
  have s: "create_arrow_image ?A ''s'' 50 (255, 0, 0) = Inr (flipud ?A)"
    using C10_arrow_direction [of 50 ?A "''s''" "(255, 0, 0)"] by simp
  have a: "create_arrow_image ?A ''a'' 7 (0, 0, 255) = Inr (rot90 ?A 1)"
    using C10_arrow_direction [of 7 ?A "''a''" "(0, 0, 255)"] by simp
  have d: "create_arrow_image ?A ''d'' 0 (255, 0, 0) = Inr (rot90 ?A (- 1))"
    using C10_arrow_direction [of 0 ?A "''d''" "(255, 0, 0)"] by simp
  have x: "create_arrow_image ?A ''x'' 50 (255, 0, 0) = Inr ?A"
    using C10_arrow_direction [of 50 ?A "''x''" "(255, 0, 0)"] by simp
  have e: "flipud ?A = [[(3, 0, 0), (4, 0, 0)], [(1, 0, 0), (2, 0, 0)]]"
    "rot90 ?A 1 = [[(2, 0, 0), (4, 0, 0)], [(1, 0, 0), (3, 0, 0)]]"
    "rot90 ?A (- 1) = [[(3, 0, 0), (1, 0, 0)], [(4, 0, 0), (2, 0, 0)]]"
    by (simp_all add: flipud_def rot90_def np_transpose_def flip1_def shape1_def upt_rec)
  from r s a d x show ?thesis unfolding e by simp
qed

text \<open>
  Claim C10 as stated fails: the result depends on the size. The function first
  allocates \<^verbatim>\<open>np.zeros((size, size, 3))\<close>, which raises \<^verbatim>\<open>ValueError\<close> for a
  negative size, before it reads the image.
\<close>

theorem C10_counterexample:
  "create_arrow_image [[(1, 0, 0)]] ''w'' (- 1) (255, 0, 0)
     = Inl (ValueError ''negative dimensions are not allowed'')
   \<and> create_arrow_image [[(1, 0, 0)]] ''w'' 50 (255, 0, 0) = Inr [[(1, 0, 0)]]"
  by (simp add: create_arrow_image_def np_zeros_def)

end
